theory Spec2Isabelle
  imports Complex_Main "HOL-Library.AList" "HOL-Library.Sublist" "HOL-Library.Multiset"
begin

section \<open>SkillDiffuser: transcript loader and skill aggregator\<close>

text \<open>
  A shallow embedding of \<^verbatim>\<open>backend/src/skilldiffuser.py\<close>: the method
  \<^verbatim>\<open>SkillDiffuser.get_skill_summary\<close> and the function
  \<^verbatim>\<open>load_transcriptions_from_file\<close>.

  Conventions of the embedding.
  \<^item> A Python \<^verbatim>\<open>str\<close> is a \<^typ>\<open>string\<close>: the list of its code points, each
    below 256.
  \<^item> A Python \<^verbatim>\<open>int\<close> is an \<^typ>\<open>int\<close>.
  \<^item> A Python \<^verbatim>\<open>dict\<close> is an association list in insertion order with
    distinct keys; looking up a missing key is the error \<open>KeyError\<close>.
  \<^item> The quotient \<^verbatim>\<open>high_count / counts\<close> of two Python ints is a float, the
    correctly rounded value of the exact quotient. It is modelled by the exact quotient,
    a \<^typ>\<open>rat\<close>.
  \<^item> A function that can raise returns \<open>py_error + 'a\<close>, with \<open>Inl\<close> the exception.
\<close>

subsection \<open>Exceptions and dictionaries\<close>

datatype py_error = KeyError | IndexError | ValueError

type_synonym ('k, 'v) dict = "('k \<times> 'v) list"

definition dict_contains :: "('k, 'v) dict \<Rightarrow> 'k \<Rightarrow> bool" where
  "dict_contains d k = (map_of d k \<noteq> None)"

definition dict_getitem :: "('k, 'v) dict \<Rightarrow> 'k \<Rightarrow> py_error + 'v" where
  "dict_getitem d k = (case map_of d k of None \<Rightarrow> Inl KeyError | Some v \<Rightarrow> Inr v)"

definition dict_setitem :: "('k, 'v) dict \<Rightarrow> 'k \<Rightarrow> 'v \<Rightarrow> ('k, 'v) dict" where
  "dict_setitem d k v = AList.update k v d"

text \<open>A \<^verbatim>\<open>for\<close> loop over a list whose body may raise: the first exception ends it.\<close>

fun for_each :: "('s \<Rightarrow> 'a \<Rightarrow> py_error + 's) \<Rightarrow> 'a list \<Rightarrow> 's \<Rightarrow> py_error + 's" where
  "for_each body [] s = Inr s"
| "for_each body (x # xs) s =
     (case body s x of Inl e \<Rightarrow> Inl e | Inr s' \<Rightarrow> for_each body xs s')"

subsection \<open>Data model\<close>

record Skill =
  name :: string
  description :: string
  quote :: string
  timestamp :: string
  effectiveness :: string

record CallAnalysis =
  call_id :: string
  skills :: "Skill list"
  overall_assessment :: string
  key_insights :: "string list"

record effectiveness_distribution =
  high :: int
  medium :: int
  low :: int

record skill_statistic =
  frequency :: int
  distribution :: effectiveness_distribution
  avg_effectiveness :: rat

record skill_summary =
  total_calls_analyzed :: int
  unique_skills_found :: int
  skill_statistics :: "(string, skill_statistic) dict"

subsection \<open>\<^verbatim>\<open>SkillDiffuser.get_skill_summary\<close>\<close>

text \<open>\<^verbatim>\<open>list.count\<close>.\<close>

definition py_count :: "'a list \<Rightarrow> 'a \<Rightarrow> int" where
  "py_count xs x = int (count_list xs x)"

text \<open>
  The body of the inner loop (lines 134 to 140). The state is the pair of dictionaries
  \<^verbatim>\<open>skill_counts\<close> and \<^verbatim>\<open>skill_effectiveness\<close>.
\<close>

type_synonym tally = "(string, int) dict \<times> (string, string list) dict"

definition tally_skill :: "tally \<Rightarrow> Skill \<Rightarrow> py_error + tally" where
  "tally_skill st skill =
     (let skill_name = name skill;
          (skill_counts, skill_effectiveness) =
             (if \<not> dict_contains (fst st) skill_name
              then (dict_setitem (fst st) skill_name 0, dict_setitem (snd st) skill_name [])
              else st)
      in case dict_getitem skill_counts skill_name of
           Inl e \<Rightarrow> Inl e
         | Inr c \<Rightarrow>
            (case dict_getitem skill_effectiveness skill_name of
               Inl e \<Rightarrow> Inl e
             | Inr es \<Rightarrow>
                 Inr (dict_setitem skill_counts skill_name (c + 1),
                      dict_setitem skill_effectiveness skill_name (es @ [effectiveness skill]))))"

text \<open>The outer loop (lines 132 and 133).\<close>

definition tally_analysis :: "tally \<Rightarrow> CallAnalysis \<Rightarrow> py_error + tally" where
  "tally_analysis st analysis = for_each tally_skill (skills analysis) st"

definition tally_analyses :: "CallAnalysis list \<Rightarrow> py_error + tally" where
  "tally_analyses analyses = for_each tally_analysis analyses ([], [])"

text \<open>The body of the second loop (lines 145 to 158).\<close>

definition skill_stat_entry ::
  "(string, string list) dict \<Rightarrow> (string, skill_statistic) dict \<Rightarrow> string \<times> int
     \<Rightarrow> py_error + (string, skill_statistic) dict" where
  "skill_stat_entry skill_effectiveness skill_stats item =
     (let skill_name = fst item; counts = snd item
      in case dict_getitem skill_effectiveness skill_name of
           Inl e \<Rightarrow> Inl e
         | Inr effectiveness_values \<Rightarrow>
            (let high_count = py_count effectiveness_values ''high'';
                 medium_count = py_count effectiveness_values ''medium'';
                 low_count = py_count effectiveness_values ''low''
             in Inr (dict_setitem skill_stats skill_name
                  \<lparr> frequency = counts,
                    distribution = \<lparr> high = high_count, medium = medium_count, low = low_count \<rparr>,
                    avg_effectiveness =
                      (if counts > 0 then of_int high_count / of_int counts else 0) \<rparr>)))"

definition get_skill_summary :: "CallAnalysis list \<Rightarrow> py_error + skill_summary" where
  "get_skill_summary analyses =
     (case tally_analyses analyses of
        Inl e \<Rightarrow> Inl e
      | Inr (skill_counts, skill_effectiveness) \<Rightarrow>
         (case for_each (skill_stat_entry skill_effectiveness) skill_counts [] of
            Inl e \<Rightarrow> Inl e
          | Inr skill_stats \<Rightarrow>
              Inr \<lparr> total_calls_analyzed = int (length analyses),
                    unique_skills_found = int (length skill_counts),
                    skill_statistics = skill_stats \<rparr>))"

subsection \<open>Python string and list operations\<close>

text \<open>
  \<^verbatim>\<open>str.isspace\<close> on one code point below 256: the ASCII white space
  (tab, line feed, vertical tab, form feed, carriage return, the four separators
  \<open>0x1c\<close> to \<open>0x1f\<close>, space), next line \<open>0x85\<close> and no-break space \<open>0xa0\<close>.
\<close>

definition isspace :: "char \<Rightarrow> bool" where
  "isspace c = (of_char c \<in> {9, 10, 11, 12, 13, 28, 29, 30, 31, 32, 133, 160 :: nat})"

text \<open>\<^verbatim>\<open>str.strip()\<close>: white space removed at both ends.\<close>

definition py_strip :: "string \<Rightarrow> string" where
  "py_strip s = rev (dropWhile isspace (rev (dropWhile isspace s)))"

text \<open>
  The search that \<^verbatim>\<open>str.split\<close>, \<^verbatim>\<open>str.replace\<close> and \<^verbatim>\<open>in\<close>
  share: the leftmost occurrence of \<open>sep\<close> in \<open>s\<close>, returned as the text before it and
  the text after it (\<^verbatim>\<open>str.partition\<close> without its middle component), or \<open>None\<close>
  when \<open>sep\<close> does not occur.
\<close>

fun find_split :: "string \<Rightarrow> string \<Rightarrow> (string \<times> string) option" where
  "find_split sep [] = (if sep = [] then Some ([], []) else None)"
| "find_split sep (c # cs) =
     (if prefix sep (c # cs) then Some ([], drop (length sep) (c # cs))
      else map_option (\<lambda>(a, b). (c # a, b)) (find_split sep cs))"

text \<open>\<^verbatim>\<open>sub in s\<close>.\<close>

definition py_contains :: "string \<Rightarrow> string \<Rightarrow> bool" where
  "py_contains sub s = (find_split sub s \<noteq> None)"

text \<open>
  \<^verbatim>\<open>s.split(sep)\<close> for a non-empty separator: the pieces between the
  non-overlapping occurrences of \<open>sep\<close>, found from the left.
\<close>

function split_all :: "string \<Rightarrow> string \<Rightarrow> string list" where
  "split_all sep s =
     (case (if sep = [] then None else find_split sep s) of
        None \<Rightarrow> [s]
      | Some (a, b) \<Rightarrow> a # split_all sep b)"
  by pat_completeness auto
termination
proof (relation "measure (\<lambda>(sep, s). length s)")
  show "wf (measure (\<lambda>(sep :: string, s :: string). length s))" by simp
next
  fix sep s :: string and x2 :: "string \<times> string" and a b :: string
  assume found: "(if sep = [] then None else find_split sep s) = Some x2" and x2: "(a, b) = x2"
  then have ne: "sep \<noteq> []" and fs: "find_split sep s = Some (a, b)"
    by (auto split: if_splits)
  have "length b < length s" using fs
  proof (induction s arbitrary: a)
    case Nil
    with ne show ?case by simp
  next
    case (Cons c cs)
    show ?case
    proof (cases "prefix sep (c # cs)")
      case True
      with Cons.prems have "b = drop (length sep) (c # cs)" by simp
      with ne show ?thesis by simp
    next
      case False
      with Cons.prems obtain a' where "find_split sep cs = Some (a', b)" by auto
      from Cons.IH[OF this] show ?thesis by simp
    qed
  qed
  then show "((sep, b), (sep, s)) \<in> measure (\<lambda>(sep, s). length s)" by simp
qed

declare split_all.simps [simp del]

text \<open>\<^verbatim>\<open>s.split(sep)\<close>; an empty separator raises \<open>ValueError\<close>.\<close>

definition py_split :: "string \<Rightarrow> string \<Rightarrow> py_error + string list" where
  "py_split sep s = (if sep = [] then Inl ValueError else Inr (split_all sep s))"

text \<open>\<^verbatim>\<open>s.split(sep, 1)\<close>: at most one split, at the leftmost occurrence.\<close>

definition py_split1 :: "string \<Rightarrow> string \<Rightarrow> py_error + string list" where
  "py_split1 sep s =
     (if sep = [] then Inl ValueError
      else case find_split sep s of None \<Rightarrow> Inr [s] | Some (a, b) \<Rightarrow> Inr [a, b])"

text \<open>
  \<^verbatim>\<open>s.replace(old, new)\<close>: every non-overlapping occurrence of \<open>old\<close>, found
  from the left, is replaced; an empty \<open>old\<close> matches before every character and at the end.
\<close>

function py_replace :: "string \<Rightarrow> string \<Rightarrow> string \<Rightarrow> string" where
  "py_replace old new s =
     (case (if old = [] then None else find_split old s) of
        None \<Rightarrow> (if old = [] then new @ concat (map (\<lambda>c. c # new) s) else s)
      | Some (a, b) \<Rightarrow> a @ new @ py_replace old new b)"
  by pat_completeness auto
termination
proof (relation "measure (\<lambda>(old, new, s). length s)")
  show "wf (measure (\<lambda>(old :: string, new :: string, s :: string). length s))" by simp
next
  fix old new s :: string and x2 :: "string \<times> string" and a b :: string
  assume found: "(if old = [] then None else find_split old s) = Some x2" and x2: "(a, b) = x2"
  then have ne: "old \<noteq> []" and fs: "find_split old s = Some (a, b)"
    by (auto split: if_splits)
  have "length b < length s" using fs
  proof (induction s arbitrary: a)
    case Nil
    with ne show ?case by simp
  next
    case (Cons c cs)
    show ?case
    proof (cases "prefix old (c # cs)")
      case True
      with Cons.prems have "b = drop (length old) (c # cs)" by simp
      with ne show ?thesis by simp
    next
      case False
      with Cons.prems obtain a' where "find_split old cs = Some (a', b)" by auto
      from Cons.IH[OF this] show ?thesis by simp
    qed
  qed
  then show "((old, new, b), (old, new, s)) \<in> measure (\<lambda>(old, new, s). length s)" by simp
qed

declare py_replace.simps [simp del]

text \<open>\<^verbatim>\<open>xs[i]\<close> for an index \<open>i \<ge> 0\<close>.\<close>

definition py_getitem :: "'a list \<Rightarrow> nat \<Rightarrow> py_error + 'a" where
  "py_getitem xs i = (if i < length xs then Inr (xs ! i) else Inl IndexError)"

subsection \<open>\<^verbatim>\<open>load_transcriptions_from_file\<close>\<close>

text \<open>
  A call is the dictionary \<^verbatim>\<open>{'call_id': call_id, 'transcript': transcript}\<close>.
\<close>

type_synonym call = "(string, string) dict"

text \<open>The body of the \<^verbatim>\<open>if\<close> (lines 192 to 201): the call of one section.\<close>

definition section_call :: "string \<Rightarrow> py_error + call" where
  "section_call section =
     (case py_split1 ''---'' section of
        Inl e \<Rightarrow> Inl e
      | Inr parts \<Rightarrow>
         (case py_getitem parts 0 of
            Inl e \<Rightarrow> Inl e
          | Inr part0 \<Rightarrow>
             (let call_id = py_strip part0
              in case (if length parts > 1 then py_getitem parts 1 else Inr '''') of
                   Inl e \<Rightarrow> Inl e
                 | Inr transcript_part \<Rightarrow>
                     (let transcript = py_strip (py_replace ''---END---'' '''' transcript_part)
                      in Inr [(''call_id'', call_id), (''transcript'', transcript)]))))"

text \<open>The body of the loop (lines 191 to 201); the state is the list \<^verbatim>\<open>calls\<close>.\<close>

definition load_section :: "call list \<Rightarrow> string \<Rightarrow> py_error + call list" where
  "load_section calls section =
     (if py_contains ''---END---'' section
      then (case section_call section of Inl e \<Rightarrow> Inl e | Inr c \<Rightarrow> Inr (calls @ [c]))
      else Inr calls)"

text \<open>
  The function, from the text \<open>content\<close> that \<^verbatim>\<open>f.read()\<close> returns for the file
  at \<^verbatim>\<open>file_path\<close>. Opening and decoding the file are outside the model.
\<close>

definition load_transcriptions_from_file :: "string \<Rightarrow> py_error + call list" where
  "load_transcriptions_from_file content =
     (case py_split ''---CALL_ID:'' content of
        Inl e \<Rightarrow> Inl e
      | Inr call_sections \<Rightarrow> for_each load_section (drop 1 call_sections) [])"

section \<open>Specification-level definitions\<close>

text \<open>Every skill of every analysis, in the order of the two nested loops.\<close>

definition all_skills :: "CallAnalysis list \<Rightarrow> Skill list" where
  "all_skills analyses = concat (map skills analyses)"

text \<open>The effectiveness values of the occurrences of one name, in order.\<close>

definition effectiveness_values_of :: "string \<Rightarrow> Skill list \<Rightarrow> string list" where
  "effectiveness_values_of n sks = map effectiveness (filter (\<lambda>s. name s = n) sks)"

text \<open>
  The invariant of the first loop after the skills \<open>sks\<close>: the two dictionaries have the
  same distinct keys, the names seen, and hold the count and the effectiveness values of
  each name.
\<close>

definition tally_inv :: "Skill list \<Rightarrow> tally \<Rightarrow> bool" where
  "tally_inv sks st =
     (map fst (fst st) = map fst (snd st) \<and> distinct (map fst (fst st))
      \<and> fst ` set (fst st) = name ` set sks
      \<and> (\<forall>n \<in> name ` set sks.
            map_of (fst st) n = Some (int (length (effectiveness_values_of n sks)))
          \<and> map_of (snd st) n = Some (effectiveness_values_of n sks)))"

text \<open>The statistic that the second loop builds from a count and a list of values.\<close>

definition stat_of :: "int \<Rightarrow> string list \<Rightarrow> skill_statistic" where
  "stat_of counts effectiveness_values =
     \<lparr> frequency = counts,
       distribution = \<lparr> high = py_count effectiveness_values ''high'',
                        medium = py_count effectiveness_values ''medium'',
                        low = py_count effectiveness_values ''low'' \<rparr>,
       avg_effectiveness =
         (if counts > 0 then of_int (py_count effectiveness_values ''high'') / of_int counts else 0) \<rparr>"

text \<open>Scenario B of the specification; the fields it leaves open are empty.\<close>

definition scenario_B :: "CallAnalysis list" where
  "scenario_B =
     [\<lparr> call_id = ''call1'',
         skills = [\<lparr> name = ''Rapport'', description = '''', quote = '''', timestamp = '''',
                      effectiveness = ''high'' \<rparr>,
                   \<lparr> name = ''Urgency'', description = '''', quote = '''', timestamp = '''',
                      effectiveness = ''medium'' \<rparr>],
         overall_assessment = '''', key_insights = [] \<rparr>,
      \<lparr> call_id = ''call2'',
         skills = [\<lparr> name = ''Rapport'', description = '''', quote = '''', timestamp = '''',
                      effectiveness = ''low'' \<rparr>],
         overall_assessment = '''', key_insights = [] \<rparr>]"

text \<open>One call with one skill whose effectiveness is none of the three labels.\<close>

definition unrated_example :: "CallAnalysis list" where
  "unrated_example =
     [\<lparr> call_id = ''call1'',
         skills = [\<lparr> name = ''Rapport'', description = '''', quote = '''', timestamp = '''',
                      effectiveness = ''excellent'' \<rparr>],
         overall_assessment = '''', key_insights = [] \<rparr>]"

text \<open>The three effectiveness labels that have a bucket.\<close>

definition recognized :: "string \<Rightarrow> bool" where
  "recognized e = (e = ''high'' \<or> e = ''medium'' \<or> e = ''low'')"

definition unrated_statistic :: skill_statistic where
  "unrated_statistic =
     \<lparr> frequency = 1, distribution = \<lparr> high = 0, medium = 0, low = 0 \<rparr>,
       avg_effectiveness = 0 \<rparr>"

definition unrated_summary :: skill_summary where
  "unrated_summary =
     \<lparr> total_calls_analyzed = 1, unique_skills_found = 1,
       skill_statistics = [(''Rapport'', unrated_statistic)] \<rparr>"

definition scenario_B_summary :: skill_summary where
  "scenario_B_summary =
     \<lparr> total_calls_analyzed = 2, unique_skills_found = 2,
       skill_statistics =
         [(''Rapport'', \<lparr> frequency = 2, distribution = \<lparr> high = 1, medium = 0, low = 1 \<rparr>,
                          avg_effectiveness = 1 / 2 \<rparr>),
          (''Urgency'', \<lparr> frequency = 1, distribution = \<lparr> high = 0, medium = 1, low = 0 \<rparr>,
                          avg_effectiveness = 0 \<rparr>)] \<rparr>"

definition rapport_statistic :: skill_statistic where
  "rapport_statistic =
     \<lparr> frequency = 2, distribution = \<lparr> high = 1, medium = 0, low = 1 \<rparr>,
       avg_effectiveness = 1 / 2 \<rparr>"

text \<open>
  One call in which \<open>Rapport\<close> occurs twice, once with a label that has no bucket, and
  the summary of that call.
\<close>

definition mixed_example :: "CallAnalysis list" where
  "mixed_example =
     [\<lparr> call_id = ''call1'',
         skills = [\<lparr> name = ''Rapport'', description = '''', quote = '''', timestamp = '''',
                      effectiveness = ''high'' \<rparr>,
                   \<lparr> name = ''Rapport'', description = '''', quote = '''', timestamp = '''',
                      effectiveness = ''excellent'' \<rparr>,
                   \<lparr> name = ''Urgency'', description = '''', quote = '''', timestamp = '''',
                      effectiveness = ''medium'' \<rparr>],
         overall_assessment = '''', key_insights = [] \<rparr>]"

definition mixed_rapport_statistic :: skill_statistic where
  "mixed_rapport_statistic =
     \<lparr> frequency = 2, distribution = \<lparr> high = 1, medium = 0, low = 0 \<rparr>,
       avg_effectiveness = 1 / 2 \<rparr>"

definition mixed_summary :: skill_summary where
  "mixed_summary =
     \<lparr> total_calls_analyzed = 1, unique_skills_found = 2,
       skill_statistics =
         [(''Rapport'', mixed_rapport_statistic),
          (''Urgency'', \<lparr> frequency = 1, distribution = \<lparr> high = 0, medium = 1, low = 0 \<rparr>,
                          avg_effectiveness = 0 \<rparr>)] \<rparr>"

text \<open>
  A section of a file, by its parts: the identifier text, the body and the text after the
  closing marker. \<open>section_inner\<close> is the text of the section after its opening marker
  \<open>---CALL_ID:\<close>, \<open>section_text\<close> the whole section.
\<close>

type_synonym marked_section = "string \<times> string \<times> string"

definition section_inner :: "marked_section \<Rightarrow> string" where
  "section_inner sec =
     (case sec of (ident, body, trail) \<Rightarrow> ident @ ''---'' @ body @ ''---END---'' @ trail)"

definition section_text :: "marked_section \<Rightarrow> string" where
  "section_text sec = ''---CALL_ID:'' @ section_inner sec"

text \<open>
  A section is well-formed when its identifier ends at the first \<open>---\<close> (the identifier
  followed by \<open>--\<close> contains no \<open>---\<close>), no opening marker occurs inside it, no
  \<open>---END---\<close> begins before the closing marker, and only white space follows the closing
  marker.
\<close>

definition wf_section :: "marked_section \<Rightarrow> bool" where
  "wf_section sec =
     (case sec of (ident, body, trail) \<Rightarrow>
        \<not> py_contains ''---'' (ident @ ''--'')
      \<and> \<not> py_contains ''---CALL_ID:'' (ident @ ''---'' @ body @ ''---END---'' @ trail)
      \<and> \<not> py_contains ''---END---'' (body @ ''---END--'')
      \<and> list_all isspace trail)"

text \<open>The call expected from a section: identifier and body, stripped.\<close>

definition expected_call :: "marked_section \<Rightarrow> call" where
  "expected_call sec =
     (case sec of (ident, body, trail) \<Rightarrow>
        [(''call_id'', py_strip ident), (''transcript'', py_strip body)])"





section \<open>Properties of the aggregator\<close>

lemma for_each_invariant:
  assumes step: "\<And>s x seen. I seen s \<Longrightarrow> \<exists>s'. body s x = Inr s' \<and> I (seen @ [x]) s'"
    and init: "I pre s"
  shows "\<exists>s'. for_each body xs s = Inr s' \<and> I (pre @ xs) s'"
  using init
proof (induction xs arbitrary: pre s)
  case Nil
  then show ?case by simp
next
  case (Cons x xs)
  from step[OF Cons.prems] obtain s1 where s1: "body s x = Inr s1" "I (pre @ [x]) s1" by blast
  from Cons.IH[OF s1(2)] show ?case using s1(1) by simp
qed

lemma evo_snoc:
  "effectiveness_values_of n (sks @ [sk]) =
     effectiveness_values_of n sks @ (if name sk = n then [effectiveness sk] else [])"
  by (simp add: effectiveness_values_of_def)

lemma evo_absent: "n \<notin> name ` set sks \<Longrightarrow> effectiveness_values_of n sks = []"
  by (auto simp: effectiveness_values_of_def filter_empty_conv)

lemma tally_inv_intro:
  assumes "map fst sc = map fst se" "distinct (map fst sc)" "fst ` set sc = name ` set sks"
    and "\<And>n. n \<in> name ` set sks \<Longrightarrow>
           map_of sc n = Some (int (length (effectiveness_values_of n sks)))"
    and "\<And>n. n \<in> name ` set sks \<Longrightarrow> map_of se n = Some (effectiveness_values_of n sks)"
  shows "tally_inv sks (sc, se)"
  using assms by (simp add: tally_inv_def)

lemma tally_skill_present:
  assumes "map_of sc k = Some c" "map_of se k = Some es" "name sk = k"
  shows "tally_skill (sc, se) sk =
           Inr (AList.update k (c + 1) sc, AList.update k (es @ [effectiveness sk]) se)"
  using assms by (simp add: tally_skill_def dict_contains_def dict_getitem_def dict_setitem_def)

lemma tally_skill_absent:
  assumes "map_of sc k = None" "name sk = k"
  shows "tally_skill (sc, se) sk =
           Inr (AList.update k 1 (AList.update k 0 sc),
                AList.update k [effectiveness sk] (AList.update k [] se))"
  using assms by (simp add: tally_skill_def dict_contains_def dict_getitem_def dict_setitem_def
      update_conv')

lemma tally_skill_step:
  assumes inv: "tally_inv sks st"
  shows "\<exists>st'. tally_skill st sk = Inr st' \<and> tally_inv (sks @ [sk]) st'"
proof -
  obtain sc se where st: "st = (sc, se)" by (cases st)
  from inv st have keys: "map fst sc = map fst se" and dist: "distinct (map fst sc)"
    and dom: "fst ` set sc = name ` set sks"
    and cnt: "\<And>n. n \<in> name ` set sks \<Longrightarrow>
           map_of sc n = Some (int (length (effectiveness_values_of n sks)))"
    and effs: "\<And>n. n \<in> name ` set sks \<Longrightarrow> map_of se n = Some (effectiveness_values_of n sks)"
    unfolding tally_inv_def by auto
  define k where "k = name sk"
  have dom': "set (map fst sc) = name ` set sks" using dom by simp
  have dome: "set (map fst se) = name ` set sks" using dom' keys by simp
  show ?thesis
  proof (cases "k \<in> name ` set sks")
    case True
    let ?sc' = "AList.update k (int (length (effectiveness_values_of k sks)) + 1) sc"
    let ?se' = "AList.update k (effectiveness_values_of k sks @ [effectiveness sk]) se"
    have run: "tally_skill st sk = Inr (?sc', ?se')"
      unfolding st using cnt[OF True] effs[OF True] k_def[symmetric] by (rule tally_skill_present)
    have "tally_inv (sks @ [sk]) (?sc', ?se')"
    proof (rule tally_inv_intro)
      show "map fst ?sc' = map fst ?se'" using keys by (simp add: update_keys)
      show "distinct (map fst ?sc')" using dist by (simp add: distinct_update)
      show "fst ` set ?sc' = name ` set (sks @ [sk])"
        using True dom by (auto simp: dom_update k_def)
    next
      fix n assume "n \<in> name ` set (sks @ [sk])"
      then have n: "n = k \<or> n \<in> name ` set sks" by (auto simp: k_def)
      show "map_of ?sc' n = Some (int (length (effectiveness_values_of n (sks @ [sk]))))"
        using n cnt by (auto simp: update_conv' evo_snoc k_def)
      show "map_of ?se' n = Some (effectiveness_values_of n (sks @ [sk]))"
        using n effs by (auto simp: update_conv' evo_snoc k_def)
    qed
    with run show ?thesis by blast
  next
    case False
    have nc: "map_of sc k = None" using False dom' by (simp add: map_of_eq_None_iff)
    let ?sc' = "AList.update k 1 (AList.update k 0 sc)"
    let ?se' = "AList.update k [effectiveness sk] (AList.update k [] se)"
    have run: "tally_skill st sk = Inr (?sc', ?se')"
      unfolding st using nc k_def[symmetric] by (rule tally_skill_absent)
    have "tally_inv (sks @ [sk]) (?sc', ?se')"
    proof (rule tally_inv_intro)
      show "map fst ?sc' = map fst ?se'" using keys by (simp add: update_keys)
      show "distinct (map fst ?sc')" using dist by (simp add: distinct_update)
      show "fst ` set ?sc' = name ` set (sks @ [sk])"
        using dom by (auto simp: dom_update k_def)
    next
      fix n assume "n \<in> name ` set (sks @ [sk])"
      then have n: "n = k \<or> n \<in> name ` set sks" by (auto simp: k_def)
      show "map_of ?sc' n = Some (int (length (effectiveness_values_of n (sks @ [sk]))))"
        using n cnt False by (auto simp: update_conv' evo_snoc evo_absent k_def)
      show "map_of ?se' n = Some (effectiveness_values_of n (sks @ [sk]))"
        using n effs False by (auto simp: update_conv' evo_snoc evo_absent k_def)
    qed
    with run show ?thesis by blast
  qed
qed

lemma tally_analysis_step:
  assumes "tally_inv sks st"
  shows "\<exists>st'. tally_analysis st a = Inr st' \<and> tally_inv (sks @ skills a) st'"
  unfolding tally_analysis_def
  by (rule for_each_invariant[where I = tally_inv, OF tally_skill_step assms])

lemma tally_analyses_inv:
  "\<exists>st. tally_analyses analyses = Inr st \<and> tally_inv (all_skills analyses) st"
proof -
  have step: "\<exists>s'. tally_analysis s x = Inr s' \<and> tally_inv (all_skills (seen @ [x])) s'"
    if "tally_inv (all_skills seen) s" for s x seen
    using tally_analysis_step[OF that, of x] by (simp add: all_skills_def)
  have init: "tally_inv (all_skills []) ([], [])"
    by (simp add: tally_inv_def all_skills_def)
  from for_each_invariant[where I = "\<lambda>seen. tally_inv (all_skills seen)" and pre = "[]",
      OF step init, where xs = analyses]
  show ?thesis by (simp add: tally_analyses_def)
qed

lemma update_fresh: "k \<notin> fst ` set al \<Longrightarrow> AList.update k v al = al @ [(k, v)]"
  by (induction al) auto

lemma skill_stat_entry_fresh:
  assumes "map_of se n = Some es" "n \<notin> fst ` set acc"
  shows "skill_stat_entry se acc (n, c) = Inr (acc @ [(n, stat_of c es)])"
  using assms
  by (simp add: skill_stat_entry_def dict_getitem_def dict_setitem_def stat_of_def update_fresh
      Let_def)

lemma stats_loop:
  assumes "\<And>n. n \<in> fst ` set items \<Longrightarrow> map_of se n \<noteq> None"
    and "distinct (map fst acc @ map fst items)"
  shows "for_each (skill_stat_entry se) items acc =
           Inr (acc @ map (\<lambda>item. (fst item, stat_of (snd item) (the (map_of se (fst item))))) items)"
  using assms
proof (induction items arbitrary: acc)
  case Nil
  then show ?case by simp
next
  case (Cons item items)
  obtain n c where item: "item = (n, c)" by (cases item)
  from Cons.prems(1)[of n] item obtain es where es: "map_of se n = Some es" by auto
  have fresh: "n \<notin> fst ` set acc" using Cons.prems(2) item by auto
  have d: "distinct (map fst (acc @ [(n, stat_of c es)]) @ map fst items)"
    using Cons.prems(2) item by auto
  have "for_each (skill_stat_entry se) items (acc @ [(n, stat_of c es)]) =
          Inr ((acc @ [(n, stat_of c es)]) @
               map (\<lambda>item. (fst item, stat_of (snd item) (the (map_of se (fst item))))) items)"
    by (rule Cons.IH[OF _ d]) (use Cons.prems(1) in auto)
  then show ?case
    using skill_stat_entry_fresh[OF es fresh, of c] es by (simp add: item)
qed

lemma map_of_stats:
  "map_of (map (\<lambda>item. (fst item, f (fst item) (snd item))) al) n =
     map_option (f n) (map_of al n)"
  by (induction al) auto

lemma get_skill_summary_lookup:
  "\<exists>s. get_skill_summary analyses = Inr s
     \<and> total_calls_analyzed s = int (length analyses)
     \<and> unique_skills_found s = int (card (name ` set (all_skills analyses)))
     \<and> distinct (map fst (skill_statistics s))
     \<and> fst ` set (skill_statistics s) = name ` set (all_skills analyses)
     \<and> (\<forall>n. map_of (skill_statistics s) n =
            (if n \<in> name ` set (all_skills analyses)
             then Some (stat_of (int (length (effectiveness_values_of n (all_skills analyses))))
                          (effectiveness_values_of n (all_skills analyses)))
             else None))"
proof -
  let ?all = "all_skills analyses"
  from tally_analyses_inv[of analyses] obtain sc se where
    run: "tally_analyses analyses = Inr (sc, se)" and inv: "tally_inv ?all (sc, se)"
    by auto
  from inv have keys: "map fst sc = map fst se" and dist: "distinct (map fst sc)"
    and dom: "fst ` set sc = name ` set ?all"
    and cnt: "\<And>n. n \<in> name ` set ?all \<Longrightarrow>
           map_of sc n = Some (int (length (effectiveness_values_of n ?all)))"
    and effs: "\<And>n. n \<in> name ` set ?all \<Longrightarrow> map_of se n = Some (effectiveness_values_of n ?all)"
    unfolding tally_inv_def by auto
  let ?stats = "map (\<lambda>item. (fst item, stat_of (snd item) (the (map_of se (fst item))))) sc"
  let ?s = "\<lparr> total_calls_analyzed = int (length analyses),
             unique_skills_found = int (card (name ` set ?all)),
             skill_statistics = ?stats \<rparr>"
  have loop: "for_each (skill_stat_entry se) sc [] = Inr ([] @ ?stats)"
    by (rule stats_loop) (use dom effs dist in auto)
  have card: "length sc = card (name ` set ?all)"
    using dist dom by (metis distinct_card length_map list.set_map)
  have 1: "get_skill_summary analyses = Inr ?s"
    using run loop card by (simp add: get_skill_summary_def)
  have mf: "map fst ?stats = map fst sc" by (simp add: comp_def)
  have 2: "distinct (map fst ?stats)" unfolding mf by (rule dist)
  have "set (map fst ?stats) = name ` set ?all" unfolding mf using dom by simp
  then have 3: "fst ` set ?stats = name ` set ?all" by (simp only: set_map)
  have 4: "map_of ?stats n =
          (if n \<in> name ` set ?all
           then Some (stat_of (int (length (effectiveness_values_of n ?all)))
                  (effectiveness_values_of n ?all))
           else None)" for n
  proof (cases "n \<in> name ` set ?all")
    case True
    then show ?thesis
      using map_of_stats[of "\<lambda>k c. stat_of c (the (map_of se k))" sc n] cnt[OF True] effs[OF True]
      by simp
  next
    case False
    then have "map_of ?stats n = None" using 3 by (simp add: map_of_eq_None_iff)
    with False show ?thesis by simp
  qed
  define s where "s = ?s"
  have a: "get_skill_summary analyses = Inr s" using 1 by (simp only: s_def)
  have b: "total_calls_analyzed s = int (length analyses)" by (simp add: s_def)
  have c: "unique_skills_found s = int (card (name ` set ?all))" by (simp add: s_def)
  have st: "skill_statistics s = ?stats" by (simp add: s_def)
  have d: "distinct (map fst (skill_statistics s))" unfolding st by (rule 2)
  have e: "fst ` set (skill_statistics s) = name ` set ?all" unfolding st by (rule 3)
  have f: "\<forall>n. map_of (skill_statistics s) n =
            (if n \<in> name ` set ?all
             then Some (stat_of (int (length (effectiveness_values_of n ?all)))
                          (effectiveness_values_of n ?all))
             else None)" unfolding st using 4 by blast
  from a b c d e f show ?thesis by blast
qed

lemma scenario_B_value:
  "get_skill_summary scenario_B =
     Inr \<lparr> total_calls_analyzed = 2, unique_skills_found = 2,
           skill_statistics =
             [(''Rapport'', \<lparr> frequency = 2, distribution = \<lparr> high = 1, medium = 0, low = 1 \<rparr>,
                              avg_effectiveness = 1 / 2 \<rparr>),
              (''Urgency'', \<lparr> frequency = 1, distribution = \<lparr> high = 0, medium = 1, low = 0 \<rparr>,
                              avg_effectiveness = 0 \<rparr>)] \<rparr>"
  by (simp add: get_skill_summary_def tally_analyses_def tally_analysis_def tally_skill_def
      skill_stat_entry_def dict_contains_def dict_getitem_def dict_setitem_def py_count_def
      scenario_B_def Let_def)

lemma empty_value:
  "get_skill_summary [] =
     Inr \<lparr> total_calls_analyzed = 0, unique_skills_found = 0, skill_statistics = [] \<rparr>"
  by (simp add: get_skill_summary_def tally_analyses_def)

lemma py_count_evo:
  "py_count (effectiveness_values_of n sks) e =
     int (length (filter (\<lambda>sk. name sk = n \<and> effectiveness sk = e) sks))"
  by (induction sks) (auto simp: py_count_def effectiveness_values_of_def)

lemma length_evo:
  "length (effectiveness_values_of n sks) = length (filter (\<lambda>sk. name sk = n) sks)"
  by (simp add: effectiveness_values_of_def)

lemma length_evo_pos:
  "n \<in> name ` set sks \<Longrightarrow> 0 < length (filter (\<lambda>sk. name sk = n) sks)"
  by (auto simp: filter_empty_conv)

lemma filter_conj_le:
  "length (filter (\<lambda>x. P x \<and> Q x) xs) \<le> length (filter P xs)"
  by (induction xs) auto

lemma stat_of_fields:
  assumes "n \<in> name ` set sks"
  defines "st \<equiv> stat_of (int (length (effectiveness_values_of n sks))) (effectiveness_values_of n sks)"
  shows "frequency st = int (length (filter (\<lambda>sk. name sk = n) sks))"
    and "high (distribution st) =
           int (length (filter (\<lambda>sk. name sk = n \<and> effectiveness sk = ''high'') sks))"
    and "medium (distribution st) =
           int (length (filter (\<lambda>sk. name sk = n \<and> effectiveness sk = ''medium'') sks))"
    and "low (distribution st) =
           int (length (filter (\<lambda>sk. name sk = n \<and> effectiveness sk = ''low'') sks))"
    and "avg_effectiveness st = of_int (high (distribution st)) / of_int (frequency st)"
    and "1 \<le> frequency st"
proof -
  have pos: "0 < length (filter (\<lambda>sk. name sk = n) sks)" by (rule length_evo_pos[OF assms(1)])
  show "frequency st = int (length (filter (\<lambda>sk. name sk = n) sks))"
    by (simp add: st_def stat_of_def length_evo)
  show "high (distribution st) =
           int (length (filter (\<lambda>sk. name sk = n \<and> effectiveness sk = ''high'') sks))"
    by (simp add: st_def stat_of_def py_count_evo)
  show "medium (distribution st) =
           int (length (filter (\<lambda>sk. name sk = n \<and> effectiveness sk = ''medium'') sks))"
    by (simp add: st_def stat_of_def py_count_evo)
  show "low (distribution st) =
           int (length (filter (\<lambda>sk. name sk = n \<and> effectiveness sk = ''low'') sks))"
    by (simp add: st_def stat_of_def py_count_evo)
  show "avg_effectiveness st = of_int (high (distribution st)) / of_int (frequency st)"
    using pos by (simp add: st_def stat_of_def length_evo)
  show "1 \<le> frequency st"
    using pos by (simp add: st_def stat_of_def length_evo Suc_le_eq)
qed

text \<open>
  Claim C1. For every list of analyses, \<open>get_skill_summary\<close> returns a summary (it raises
  nothing) in which \<open>total_calls_analyzed\<close> is the number of analyses,
  \<open>unique_skills_found\<close> is the number of distinct skill names, the keys of
  \<open>skill_statistics\<close> are exactly the distinct names, the frequency of a name is the number
  of \<open>Skill\<close> entries with exactly that name, each bucket counts the entries of that name
  whose effectiveness is exactly \<open>high\<close>, \<open>medium\<close> or \<open>low\<close>, and
  \<open>avg_effectiveness\<close> is the high count divided by the frequency. It returns the values of
  scenario B, and the empty summary on the empty list.
\<close>

theorem get_skill_summary_correct:
  "(\<exists>s. get_skill_summary analyses = Inr s
       \<and> total_calls_analyzed s = int (length analyses)
       \<and> unique_skills_found s = int (card (name ` set (all_skills analyses)))
       \<and> distinct (map fst (skill_statistics s))
       \<and> fst ` set (skill_statistics s) = name ` set (all_skills analyses)
       \<and> (\<forall>n st. map_of (skill_statistics s) n = Some st \<longrightarrow>
             frequency st = int (length (filter (\<lambda>sk. name sk = n) (all_skills analyses)))
           \<and> high (distribution st) =
               int (length (filter (\<lambda>sk. name sk = n \<and> effectiveness sk = ''high'')
                      (all_skills analyses)))
           \<and> medium (distribution st) =
               int (length (filter (\<lambda>sk. name sk = n \<and> effectiveness sk = ''medium'')
                      (all_skills analyses)))
           \<and> low (distribution st) =
               int (length (filter (\<lambda>sk. name sk = n \<and> effectiveness sk = ''low'')
                      (all_skills analyses)))
           \<and> avg_effectiveness st = of_int (high (distribution st)) / of_int (frequency st)))
   \<and> get_skill_summary scenario_B =
       Inr \<lparr> total_calls_analyzed = 2, unique_skills_found = 2,
             skill_statistics =
               [(''Rapport'', \<lparr> frequency = 2, distribution = \<lparr> high = 1, medium = 0, low = 1 \<rparr>,
                                avg_effectiveness = 1 / 2 \<rparr>),
                (''Urgency'', \<lparr> frequency = 1, distribution = \<lparr> high = 0, medium = 1, low = 0 \<rparr>,
                                avg_effectiveness = 0 \<rparr>)] \<rparr>
   \<and> get_skill_summary [] =
       Inr \<lparr> total_calls_analyzed = 0, unique_skills_found = 0, skill_statistics = [] \<rparr>"
proof (intro conjI)
  from get_skill_summary_lookup[of analyses] obtain s where
    run: "get_skill_summary analyses = Inr s"
    and tot: "total_calls_analyzed s = int (length analyses)"
    and uniq: "unique_skills_found s = int (card (name ` set (all_skills analyses)))"
    and dist: "distinct (map fst (skill_statistics s))"
    and dom: "fst ` set (skill_statistics s) = name ` set (all_skills analyses)"
    and look: "\<And>n. map_of (skill_statistics s) n =
            (if n \<in> name ` set (all_skills analyses)
             then Some (stat_of (int (length (effectiveness_values_of n (all_skills analyses))))
                          (effectiveness_values_of n (all_skills analyses)))
             else None)"
    by blast
  have entry: "frequency st = int (length (filter (\<lambda>sk. name sk = n) (all_skills analyses)))
           \<and> high (distribution st) =
               int (length (filter (\<lambda>sk. name sk = n \<and> effectiveness sk = ''high'')
                      (all_skills analyses)))
           \<and> medium (distribution st) =
               int (length (filter (\<lambda>sk. name sk = n \<and> effectiveness sk = ''medium'')
                      (all_skills analyses)))
           \<and> low (distribution st) =
               int (length (filter (\<lambda>sk. name sk = n \<and> effectiveness sk = ''low'')
                      (all_skills analyses)))
           \<and> avg_effectiveness st = of_int (high (distribution st)) / of_int (frequency st)"
    if "map_of (skill_statistics s) n = Some st" for n st
  proof -
    from that look[of n] have mem: "n \<in> name ` set (all_skills analyses)"
      by (auto split: if_splits)
    with that look[of n] have st: "st = stat_of (int (length (effectiveness_values_of n (all_skills analyses))))
                          (effectiveness_values_of n (all_skills analyses))"
      by simp
    show ?thesis unfolding st using stat_of_fields[OF mem] by blast
  qed
  show "\<exists>s. get_skill_summary analyses = Inr s
       \<and> total_calls_analyzed s = int (length analyses)
       \<and> unique_skills_found s = int (card (name ` set (all_skills analyses)))
       \<and> distinct (map fst (skill_statistics s))
       \<and> fst ` set (skill_statistics s) = name ` set (all_skills analyses)
       \<and> (\<forall>n st. map_of (skill_statistics s) n = Some st \<longrightarrow>
             frequency st = int (length (filter (\<lambda>sk. name sk = n) (all_skills analyses)))
           \<and> high (distribution st) =
               int (length (filter (\<lambda>sk. name sk = n \<and> effectiveness sk = ''high'')
                      (all_skills analyses)))
           \<and> medium (distribution st) =
               int (length (filter (\<lambda>sk. name sk = n \<and> effectiveness sk = ''medium'')
                      (all_skills analyses)))
           \<and> low (distribution st) =
               int (length (filter (\<lambda>sk. name sk = n \<and> effectiveness sk = ''low'')
                      (all_skills analyses)))
           \<and> avg_effectiveness st = of_int (high (distribution st)) / of_int (frequency st))"
    using run tot uniq dist dom entry by (intro exI[of _ s] conjI allI impI) blast+
next
  show "get_skill_summary scenario_B =
       Inr \<lparr> total_calls_analyzed = 2, unique_skills_found = 2,
             skill_statistics =
               [(''Rapport'', \<lparr> frequency = 2, distribution = \<lparr> high = 1, medium = 0, low = 1 \<rparr>,
                                avg_effectiveness = 1 / 2 \<rparr>),
                (''Urgency'', \<lparr> frequency = 1, distribution = \<lparr> high = 0, medium = 1, low = 0 \<rparr>,
                                avg_effectiveness = 0 \<rparr>)] \<rparr>"
    by (rule scenario_B_value)
next
  show "get_skill_summary [] =
       Inr \<lparr> total_calls_analyzed = 0, unique_skills_found = 0, skill_statistics = [] \<rparr>"
    by (rule empty_value)
qed

lemma filter_three_way:
  "int (length (filter (\<lambda>sk. name sk = n \<and> effectiveness sk = ''high'') sks))
   + int (length (filter (\<lambda>sk. name sk = n \<and> effectiveness sk = ''medium'') sks))
   + int (length (filter (\<lambda>sk. name sk = n \<and> effectiveness sk = ''low'') sks))
   = int (length (filter (\<lambda>sk. name sk = n \<and> recognized (effectiveness sk)) sks))"
  by (induction sks) (auto simp: recognized_def)

lemma filter_length_eq_iff:
  "length (filter (\<lambda>x. P x \<and> Q x) xs) = length (filter P xs) \<longleftrightarrow> (\<forall>x \<in> set xs. P x \<longrightarrow> Q x)"
proof (induction xs)
  case Nil
  then show ?case by simp
next
  case (Cons x xs)
  have le: "length (filter (\<lambda>x. P x \<and> Q x) xs) \<le> length (filter P xs)"
    by (rule filter_conj_le)
  show ?case using Cons le by auto
qed

lemma summary_entry:
  "\<exists>s. get_skill_summary analyses = Inr s
     \<and> (\<forall>n st. map_of (skill_statistics s) n = Some st \<longrightarrow>
           n \<in> name ` set (all_skills analyses)
         \<and> frequency st = int (length (filter (\<lambda>sk. name sk = n) (all_skills analyses)))
         \<and> high (distribution st) =
             int (length (filter (\<lambda>sk. name sk = n \<and> effectiveness sk = ''high'')
                    (all_skills analyses)))
         \<and> medium (distribution st) =
             int (length (filter (\<lambda>sk. name sk = n \<and> effectiveness sk = ''medium'')
                    (all_skills analyses)))
         \<and> low (distribution st) =
             int (length (filter (\<lambda>sk. name sk = n \<and> effectiveness sk = ''low'')
                    (all_skills analyses)))
         \<and> avg_effectiveness st = of_int (high (distribution st)) / of_int (frequency st)
         \<and> 1 \<le> frequency st)"
proof -
  from get_skill_summary_lookup[of analyses] obtain s where
    run: "get_skill_summary analyses = Inr s"
    and look: "\<And>n. map_of (skill_statistics s) n =
            (if n \<in> name ` set (all_skills analyses)
             then Some (stat_of (int (length (effectiveness_values_of n (all_skills analyses))))
                          (effectiveness_values_of n (all_skills analyses)))
             else None)"
    by blast
  have entry: "n \<in> name ` set (all_skills analyses)
         \<and> frequency st = int (length (filter (\<lambda>sk. name sk = n) (all_skills analyses)))
         \<and> high (distribution st) =
             int (length (filter (\<lambda>sk. name sk = n \<and> effectiveness sk = ''high'')
                    (all_skills analyses)))
         \<and> medium (distribution st) =
             int (length (filter (\<lambda>sk. name sk = n \<and> effectiveness sk = ''medium'')
                    (all_skills analyses)))
         \<and> low (distribution st) =
             int (length (filter (\<lambda>sk. name sk = n \<and> effectiveness sk = ''low'')
                    (all_skills analyses)))
         \<and> avg_effectiveness st = of_int (high (distribution st)) / of_int (frequency st)
         \<and> 1 \<le> frequency st"
    if "map_of (skill_statistics s) n = Some st" for n st
  proof -
    from that look[of n] have mem: "n \<in> name ` set (all_skills analyses)"
      by (auto split: if_splits)
    with that look[of n] have st: "st = stat_of (int (length (effectiveness_values_of n (all_skills analyses))))
                          (effectiveness_values_of n (all_skills analyses))"
      by simp
    show ?thesis unfolding st using mem stat_of_fields[OF mem] by blast
  qed
  from run entry show ?thesis by blast
qed

text \<open>
  Claim C3, as stated, fails: one occurrence of \<open>Rapport\<close> rated \<open>excellent\<close> gives the
  frequency 1 and the buckets 0, 0 and 0.
\<close>

theorem distribution_sum_counterexample:
  "get_skill_summary unrated_example = Inr unrated_summary
   \<and> map_of (skill_statistics unrated_summary) ''Rapport'' = Some unrated_statistic
   \<and> frequency unrated_statistic = 1
   \<and> high (distribution unrated_statistic) + medium (distribution unrated_statistic)
       + low (distribution unrated_statistic) = 0
   \<and> high (distribution unrated_statistic) + medium (distribution unrated_statistic)
       + low (distribution unrated_statistic) \<noteq> frequency unrated_statistic"
  by (simp add: get_skill_summary_def tally_analyses_def tally_analysis_def tally_skill_def
      skill_stat_entry_def dict_contains_def dict_getitem_def dict_setitem_def py_count_def
      unrated_example_def unrated_summary_def unrated_statistic_def Let_def)

text \<open>
  Claim C3, amended. When every skill of the input carries one of the three labels
  \<open>high\<close>, \<open>medium\<close>, \<open>low\<close>, the three buckets of every returned statistic add up
  to its frequency.
\<close>

theorem distribution_sums_to_frequency_when_recognized:
  assumes "\<forall>sk \<in> set (all_skills analyses). recognized (effectiveness sk)"
  shows "\<exists>s. get_skill_summary analyses = Inr s
     \<and> (\<forall>n st. map_of (skill_statistics s) n = Some st \<longrightarrow>
           high (distribution st) + medium (distribution st) + low (distribution st)
             = frequency st)"
proof -
  from summary_entry[of analyses] obtain s where
    run: "get_skill_summary analyses = Inr s"
    and entry: "\<And>n st. map_of (skill_statistics s) n = Some st \<Longrightarrow>
         frequency st = int (length (filter (\<lambda>sk. name sk = n) (all_skills analyses)))
         \<and> high (distribution st) =
             int (length (filter (\<lambda>sk. name sk = n \<and> effectiveness sk = ''high'')
                    (all_skills analyses)))
         \<and> medium (distribution st) =
             int (length (filter (\<lambda>sk. name sk = n \<and> effectiveness sk = ''medium'')
                    (all_skills analyses)))
         \<and> low (distribution st) =
             int (length (filter (\<lambda>sk. name sk = n \<and> effectiveness sk = ''low'')
                    (all_skills analyses)))"
    by blast
  have "high (distribution st) + medium (distribution st) + low (distribution st) = frequency st"
    if "map_of (skill_statistics s) n = Some st" for n st
  proof -
    have "length (filter (\<lambda>sk. name sk = n \<and> recognized (effectiveness sk)) (all_skills analyses))
            = length (filter (\<lambda>sk. name sk = n) (all_skills analyses))"
      using assms by (simp add: filter_length_eq_iff)
    then show ?thesis
      using entry[OF that] filter_three_way[of n "all_skills analyses"] by simp
  qed
  with run show ?thesis by blast
qed

lemma filter_split_length:
  "length (filter P xs)
     = length (filter (\<lambda>x. P x \<and> Q x) xs) + length (filter (\<lambda>x. P x \<and> \<not> Q x) xs)"
  by (induction xs) auto

text \<open>
  Claim C4. Every name that occurs has an entry. The frequency of an entry counts every
  occurrence of its name, each bucket counts the occurrences with exactly its label, and the
  frequency is the sum of the three buckets plus the number of occurrences whose
  effectiveness is none of the three labels: such an occurrence counts toward the frequency
  and toward no bucket. So the sum of the buckets is at most the frequency, with equality
  exactly when every occurrence of that name carries a recognised label.
\<close>

theorem distribution_at_most_frequency:
  "\<exists>s. get_skill_summary analyses = Inr s
     \<and> fst ` set (skill_statistics s) = name ` set (all_skills analyses)
     \<and> list_all (\<lambda>sk. map_of (skill_statistics s) (name sk) \<noteq> None) (all_skills analyses)
     \<and> (\<forall>n st. map_of (skill_statistics s) n = Some st \<longrightarrow>
           frequency st = int (length (filter (\<lambda>sk. name sk = n) (all_skills analyses)))
         \<and> high (distribution st) =
             int (length (filter (\<lambda>sk. name sk = n \<and> effectiveness sk = ''high'')
                    (all_skills analyses)))
         \<and> medium (distribution st) =
             int (length (filter (\<lambda>sk. name sk = n \<and> effectiveness sk = ''medium'')
                    (all_skills analyses)))
         \<and> low (distribution st) =
             int (length (filter (\<lambda>sk. name sk = n \<and> effectiveness sk = ''low'')
                    (all_skills analyses)))
         \<and> high (distribution st) + medium (distribution st) + low (distribution st)
             = int (length (filter (\<lambda>sk. name sk = n \<and> recognized (effectiveness sk))
                      (all_skills analyses)))
         \<and> frequency st
             = high (distribution st) + medium (distribution st) + low (distribution st)
               + int (length (filter (\<lambda>sk. name sk = n \<and> \<not> recognized (effectiveness sk))
                        (all_skills analyses)))
         \<and> high (distribution st) + medium (distribution st) + low (distribution st)
             \<le> frequency st
         \<and> (high (distribution st) + medium (distribution st) + low (distribution st)
              = frequency st
            \<longleftrightarrow> (\<forall>sk \<in> set (all_skills analyses).
                   name sk = n \<longrightarrow> recognized (effectiveness sk))))"
proof -
  let ?all = "all_skills analyses"
  from get_skill_summary_lookup[of analyses] obtain s where
    run: "get_skill_summary analyses = Inr s"
    and dom: "fst ` set (skill_statistics s) = name ` set ?all"
    and look: "\<And>n. map_of (skill_statistics s) n =
            (if n \<in> name ` set ?all
             then Some (stat_of (int (length (effectiveness_values_of n ?all)))
                          (effectiveness_values_of n ?all))
             else None)"
    by blast
  have present: "list_all (\<lambda>sk. map_of (skill_statistics s) (name sk) \<noteq> None) ?all"
    unfolding list_all_iff
  proof
    fix sk assume "sk \<in> set ?all"
    then have "name sk \<in> name ` set ?all" by (rule imageI)
    then show "map_of (skill_statistics s) (name sk) \<noteq> None" by (simp add: look)
  qed
  have entry: "frequency st = int (length (filter (\<lambda>sk. name sk = n) ?all))
         \<and> high (distribution st) =
             int (length (filter (\<lambda>sk. name sk = n \<and> effectiveness sk = ''high'') ?all))
         \<and> medium (distribution st) =
             int (length (filter (\<lambda>sk. name sk = n \<and> effectiveness sk = ''medium'') ?all))
         \<and> low (distribution st) =
             int (length (filter (\<lambda>sk. name sk = n \<and> effectiveness sk = ''low'') ?all))
         \<and> high (distribution st) + medium (distribution st) + low (distribution st)
             = int (length (filter (\<lambda>sk. name sk = n \<and> recognized (effectiveness sk)) ?all))
         \<and> frequency st
             = high (distribution st) + medium (distribution st) + low (distribution st)
               + int (length (filter (\<lambda>sk. name sk = n \<and> \<not> recognized (effectiveness sk)) ?all))
         \<and> high (distribution st) + medium (distribution st) + low (distribution st)
             \<le> frequency st
         \<and> (high (distribution st) + medium (distribution st) + low (distribution st)
              = frequency st
            \<longleftrightarrow> (\<forall>sk \<in> set ?all. name sk = n \<longrightarrow> recognized (effectiveness sk)))"
    if "map_of (skill_statistics s) n = Some st" for n st
  proof -
    from that look[of n] have mem: "n \<in> name ` set ?all"
      by (auto split: if_splits)
    with that look[of n] have st: "st = stat_of (int (length (effectiveness_values_of n ?all)))
                          (effectiveness_values_of n ?all)"
      by simp
    note fields = stat_of_fields[OF mem, folded st]
    have f: "frequency st = int (length (filter (\<lambda>sk. name sk = n) ?all))"
      by (rule fields(1))
    have h: "high (distribution st) =
             int (length (filter (\<lambda>sk. name sk = n \<and> effectiveness sk = ''high'') ?all))"
      by (rule fields(2))
    have m: "medium (distribution st) =
             int (length (filter (\<lambda>sk. name sk = n \<and> effectiveness sk = ''medium'') ?all))"
      by (rule fields(3))
    have l: "low (distribution st) =
             int (length (filter (\<lambda>sk. name sk = n \<and> effectiveness sk = ''low'') ?all))"
      by (rule fields(4))
    have sum: "high (distribution st) + medium (distribution st) + low (distribution st)
             = int (length (filter (\<lambda>sk. name sk = n \<and> recognized (effectiveness sk)) ?all))"
      unfolding h m l by (rule filter_three_way)
    have split: "length (filter (\<lambda>sk. name sk = n) ?all)
                   = length (filter (\<lambda>sk. name sk = n \<and> recognized (effectiveness sk)) ?all)
                   + length (filter (\<lambda>sk. name sk = n \<and> \<not> recognized (effectiveness sk)) ?all)"
      by (rule filter_split_length)
    have rest: "frequency st
             = high (distribution st) + medium (distribution st) + low (distribution st)
               + int (length (filter (\<lambda>sk. name sk = n \<and> \<not> recognized (effectiveness sk)) ?all))"
      unfolding sum f split by simp
    have le: "high (distribution st) + medium (distribution st) + low (distribution st)
             \<le> frequency st"
      unfolding rest by simp
    have iff: "length (filter (\<lambda>sk. name sk = n \<and> recognized (effectiveness sk)) ?all)
                 = length (filter (\<lambda>sk. name sk = n) ?all)
               \<longleftrightarrow> (\<forall>sk \<in> set ?all. name sk = n \<longrightarrow> recognized (effectiveness sk))"
      by (rule filter_length_eq_iff)
    have eq: "high (distribution st) + medium (distribution st) + low (distribution st)
              = frequency st
            \<longleftrightarrow> (\<forall>sk \<in> set ?all. name sk = n \<longrightarrow> recognized (effectiveness sk))"
      unfolding sum f using iff by simp
    from f h m l sum rest le eq show ?thesis by blast
  qed
  from run dom present entry show ?thesis by blast
qed

text \<open>
  Claim C10. Every returned statistic has a frequency of at least 1, a high count between 0
  and the frequency, and an \<open>avg_effectiveness\<close> between 0 and 1.
\<close>

theorem frequency_positive_and_avg_in_unit_interval:
  "\<exists>s. get_skill_summary analyses = Inr s
     \<and> (\<forall>n st. map_of (skill_statistics s) n = Some st \<longrightarrow>
           1 \<le> frequency st
         \<and> 0 \<le> high (distribution st) \<and> high (distribution st) \<le> frequency st
         \<and> 0 \<le> avg_effectiveness st \<and> avg_effectiveness st \<le> 1)"
proof -
  from summary_entry[of analyses] obtain s where
    run: "get_skill_summary analyses = Inr s"
    and entry: "\<And>n st. map_of (skill_statistics s) n = Some st \<Longrightarrow>
         frequency st = int (length (filter (\<lambda>sk. name sk = n) (all_skills analyses)))
         \<and> high (distribution st) =
             int (length (filter (\<lambda>sk. name sk = n \<and> effectiveness sk = ''high'')
                    (all_skills analyses)))
         \<and> avg_effectiveness st = of_int (high (distribution st)) / of_int (frequency st)
         \<and> 1 \<le> frequency st"
    by blast
  have "1 \<le> frequency st
         \<and> 0 \<le> high (distribution st) \<and> high (distribution st) \<le> frequency st
         \<and> 0 \<le> avg_effectiveness st \<and> avg_effectiveness st \<le> 1"
    if "map_of (skill_statistics s) n = Some st" for n st
  proof -
    let ?all = "all_skills analyses"
    have pos: "1 \<le> frequency st" using entry[OF that] by blast
    have h0: "0 \<le> high (distribution st)" using entry[OF that] by simp
    have "length (filter (\<lambda>sk. name sk = n \<and> effectiveness sk = ''high'') ?all)
            \<le> length (filter (\<lambda>sk. name sk = n) ?all)"
      by (rule filter_conj_le)
    then have hle: "high (distribution st) \<le> frequency st" using entry[OF that] by simp
    have avg: "avg_effectiveness st = of_int (high (distribution st)) / of_int (frequency st)"
      using entry[OF that] by blast
    have a0: "0 \<le> avg_effectiveness st" unfolding avg using h0 pos by simp
    have a1: "avg_effectiveness st \<le> 1" unfolding avg using hle pos by simp
    from pos h0 hle a0 a1 show ?thesis by blast
  qed
  with run show ?thesis by blast
qed

lemma mset_all_skills:
  "mset (all_skills xs) = sum_mset (image_mset (\<lambda>a. mset (skills a)) (mset xs))"
  by (induction xs) (simp_all add: all_skills_def)

lemma stat_of_mset:
  assumes "mset es = mset es'"
  shows "stat_of (int (length es)) es = stat_of (int (length es')) es'"
proof -
  have len: "length es = length es'" using assms by (rule mset_eq_length)
  have cnt: "py_count es e = py_count es' e" for e
    using assms by (simp add: py_count_def flip: count_mset)
  show ?thesis by (simp add: stat_of_def len cnt)
qed

lemma evo_mset:
  assumes "mset sks = mset sks'"
  shows "mset (effectiveness_values_of n sks) = mset (effectiveness_values_of n sks')"
  using assms by (simp add: effectiveness_values_of_def)

text \<open>
  Claim C8. \<open>get_skill_summary\<close> is a function of its argument, and a permutation of the
  analyses changes neither \<open>total_calls_analyzed\<close> nor \<open>unique_skills_found\<close> nor the
  statistic found under any name (frequency, distribution and \<open>avg_effectiveness\<close>). The
  dictionaries are compared as Python compares them, by their lookups.
\<close>

theorem get_skill_summary_order_insensitive:
  assumes "mset analyses' = mset analyses"
  shows "\<exists>s s'. get_skill_summary analyses = Inr s \<and> get_skill_summary analyses' = Inr s'
           \<and> total_calls_analyzed s' = total_calls_analyzed s
           \<and> unique_skills_found s' = unique_skills_found s
           \<and> map_of (skill_statistics s') = map_of (skill_statistics s)
           \<and> (analyses' = analyses \<longrightarrow> s' = s)"
proof -
  let ?all = "all_skills analyses" and ?all' = "all_skills analyses'"
  from get_skill_summary_lookup[of analyses] obtain s where
    run: "get_skill_summary analyses = Inr s"
    and tot: "total_calls_analyzed s = int (length analyses)"
    and uniq: "unique_skills_found s = int (card (name ` set ?all))"
    and look: "\<And>n. map_of (skill_statistics s) n =
            (if n \<in> name ` set ?all
             then Some (stat_of (int (length (effectiveness_values_of n ?all)))
                          (effectiveness_values_of n ?all))
             else None)"
    by blast
  from get_skill_summary_lookup[of analyses'] obtain s' where
    run': "get_skill_summary analyses' = Inr s'"
    and tot': "total_calls_analyzed s' = int (length analyses')"
    and uniq': "unique_skills_found s' = int (card (name ` set ?all'))"
    and look': "\<And>n. map_of (skill_statistics s') n =
            (if n \<in> name ` set ?all'
             then Some (stat_of (int (length (effectiveness_values_of n ?all')))
                          (effectiveness_values_of n ?all'))
             else None)"
    by blast
  have m: "mset ?all' = mset ?all" using assms by (simp add: mset_all_skills)
  then have names: "set ?all' = set ?all" by (rule mset_eq_setD)
  have len: "length analyses' = length analyses" using assms by (rule mset_eq_length)
  have 1: "total_calls_analyzed s' = total_calls_analyzed s" using tot tot' len by simp
  have 2: "unique_skills_found s' = unique_skills_found s" using uniq uniq' names by simp
  have "map_of (skill_statistics s') n = map_of (skill_statistics s) n" for n
    unfolding look look' names using stat_of_mset[OF evo_mset[OF m, of n]] by simp
  then have 3: "map_of (skill_statistics s') = map_of (skill_statistics s)" by (rule ext)
  have 4: "analyses' = analyses \<longrightarrow> s' = s" using run run' by auto
  from run run' 1 2 3 4 show ?thesis by blast
qed

lemma scenario_B_run: "get_skill_summary scenario_B = Inr scenario_B_summary"
  unfolding scenario_B_summary_def by (rule scenario_B_value)

lemma scenario_B_rapport:
  "map_of (skill_statistics scenario_B_summary) ''Rapport'' = Some rapport_statistic"
  by (simp add: scenario_B_summary_def rapport_statistic_def)

text \<open>The statement of C1 at scenario B, for the entry of \<open>Rapport\<close>.\<close>

theorem get_skill_summary_correct_witness:
  "get_skill_summary scenario_B = Inr scenario_B_summary
   \<and> map_of (skill_statistics scenario_B_summary) ''Rapport'' = Some rapport_statistic
   \<and> frequency rapport_statistic
         = int (length (filter (\<lambda>sk. name sk = ''Rapport'') (all_skills scenario_B)))
   \<and> high (distribution rapport_statistic) =
         int (length (filter (\<lambda>sk. name sk = ''Rapport'' \<and> effectiveness sk = ''high'')
                (all_skills scenario_B)))
   \<and> medium (distribution rapport_statistic) =
         int (length (filter (\<lambda>sk. name sk = ''Rapport'' \<and> effectiveness sk = ''medium'')
                (all_skills scenario_B)))
   \<and> low (distribution rapport_statistic) =
         int (length (filter (\<lambda>sk. name sk = ''Rapport'' \<and> effectiveness sk = ''low'')
                (all_skills scenario_B)))
   \<and> avg_effectiveness rapport_statistic
         = of_int (high (distribution rapport_statistic)) / of_int (frequency rapport_statistic)"
proof -
  from get_skill_summary_correct[of scenario_B, THEN conjunct1] obtain s where
    s: "get_skill_summary scenario_B = Inr s
       \<and> total_calls_analyzed s = int (length scenario_B)
       \<and> unique_skills_found s = int (card (name ` set (all_skills scenario_B)))
       \<and> distinct (map fst (skill_statistics s))
       \<and> fst ` set (skill_statistics s) = name ` set (all_skills scenario_B)
       \<and> (\<forall>n st. map_of (skill_statistics s) n = Some st \<longrightarrow>
             frequency st = int (length (filter (\<lambda>sk. name sk = n) (all_skills scenario_B)))
           \<and> high (distribution st) =
               int (length (filter (\<lambda>sk. name sk = n \<and> effectiveness sk = ''high'')
                      (all_skills scenario_B)))
           \<and> medium (distribution st) =
               int (length (filter (\<lambda>sk. name sk = n \<and> effectiveness sk = ''medium'')
                      (all_skills scenario_B)))
           \<and> low (distribution st) =
               int (length (filter (\<lambda>sk. name sk = n \<and> effectiveness sk = ''low'')
                      (all_skills scenario_B)))
           \<and> avg_effectiveness st = of_int (high (distribution st)) / of_int (frequency st))" ..
  note run = s[THEN conjunct1]
  note entry = s[THEN conjunct2, THEN conjunct2, THEN conjunct2, THEN conjunct2, THEN conjunct2,
      THEN spec, THEN spec, THEN mp]
  from run scenario_B_run have seq: "s = scenario_B_summary" by simp
  have look: "map_of (skill_statistics s) ''Rapport'' = Some rapport_statistic"
    unfolding seq by (rule scenario_B_rapport)
  show ?thesis
    by (rule conjI, rule scenario_B_run, rule conjI, rule scenario_B_rapport, rule entry[OF look])
qed

text \<open>The amended C3 at scenario B, whose skills all carry a recognised label.\<close>

theorem distribution_sums_to_frequency_when_recognized_witness:
  "list_all (\<lambda>sk. recognized (effectiveness sk)) (all_skills scenario_B)
   \<and> get_skill_summary scenario_B = Inr scenario_B_summary
   \<and> map_of (skill_statistics scenario_B_summary) ''Rapport'' = Some rapport_statistic
   \<and> high (distribution rapport_statistic) + medium (distribution rapport_statistic)
       + low (distribution rapport_statistic) = frequency rapport_statistic"
proof -
  have hyp: "\<forall>sk \<in> set (all_skills scenario_B). recognized (effectiveness sk)"
    by (simp add: scenario_B_def all_skills_def recognized_def)
  from distribution_sums_to_frequency_when_recognized[OF hyp] obtain s where
    run: "get_skill_summary scenario_B = Inr s"
    and entry: "\<And>n st. map_of (skill_statistics s) n = Some st \<Longrightarrow>
         high (distribution st) + medium (distribution st) + low (distribution st) = frequency st"
    by blast
  from run scenario_B_run have s: "s = scenario_B_summary" by simp
  from entry[of "''Rapport''" rapport_statistic] scenario_B_rapport scenario_B_run hyp
  show ?thesis unfolding s list_all_iff by blast
qed

lemma mixed_example_run: "get_skill_summary mixed_example = Inr mixed_summary"
  by (simp add: get_skill_summary_def tally_analyses_def tally_analysis_def tally_skill_def
      skill_stat_entry_def dict_contains_def dict_getitem_def dict_setitem_def py_count_def
      mixed_example_def mixed_summary_def mixed_rapport_statistic_def Let_def)

lemma mixed_example_rapport:
  "map_of (skill_statistics mixed_summary) ''Rapport'' = Some mixed_rapport_statistic"
  by (simp add: mixed_summary_def)

text \<open>
  C4 on one call with \<open>Rapport\<close> rated \<open>high\<close> and \<open>excellent\<close>: the frequency
  is 2, the buckets add up to 1, and the difference is the one unrecognised occurrence.
\<close>

theorem distribution_at_most_frequency_witness:
  "get_skill_summary mixed_example = Inr mixed_summary
   \<and> map_of (skill_statistics mixed_summary) ''Rapport'' = Some mixed_rapport_statistic
   \<and> frequency mixed_rapport_statistic = 2
   \<and> high (distribution mixed_rapport_statistic) + medium (distribution mixed_rapport_statistic)
       + low (distribution mixed_rapport_statistic) = 1
   \<and> frequency mixed_rapport_statistic
       = high (distribution mixed_rapport_statistic) + medium (distribution mixed_rapport_statistic)
         + low (distribution mixed_rapport_statistic)
         + int (length (filter (\<lambda>sk. name sk = ''Rapport'' \<and> \<not> recognized (effectiveness sk))
                  (all_skills mixed_example)))
   \<and> high (distribution mixed_rapport_statistic) + medium (distribution mixed_rapport_statistic)
       + low (distribution mixed_rapport_statistic) \<le> frequency mixed_rapport_statistic
   \<and> \<not> list_all (\<lambda>sk. recognized (effectiveness sk))
         (filter (\<lambda>sk. name sk = ''Rapport'') (all_skills mixed_example))"
proof -
  from distribution_at_most_frequency[of mixed_example] obtain s where
    s: "get_skill_summary mixed_example = Inr s
     \<and> fst ` set (skill_statistics s) = name ` set (all_skills mixed_example)
     \<and> list_all (\<lambda>sk. map_of (skill_statistics s) (name sk) \<noteq> None) (all_skills mixed_example)
     \<and> (\<forall>n st. map_of (skill_statistics s) n = Some st \<longrightarrow>
           frequency st = int (length (filter (\<lambda>sk. name sk = n) (all_skills mixed_example)))
         \<and> high (distribution st) =
             int (length (filter (\<lambda>sk. name sk = n \<and> effectiveness sk = ''high'')
                    (all_skills mixed_example)))
         \<and> medium (distribution st) =
             int (length (filter (\<lambda>sk. name sk = n \<and> effectiveness sk = ''medium'')
                    (all_skills mixed_example)))
         \<and> low (distribution st) =
             int (length (filter (\<lambda>sk. name sk = n \<and> effectiveness sk = ''low'')
                    (all_skills mixed_example)))
         \<and> high (distribution st) + medium (distribution st) + low (distribution st)
             = int (length (filter (\<lambda>sk. name sk = n \<and> recognized (effectiveness sk))
                      (all_skills mixed_example)))
         \<and> frequency st
             = high (distribution st) + medium (distribution st) + low (distribution st)
               + int (length (filter (\<lambda>sk. name sk = n \<and> \<not> recognized (effectiveness sk))
                        (all_skills mixed_example)))
         \<and> high (distribution st) + medium (distribution st) + low (distribution st)
             \<le> frequency st
         \<and> (high (distribution st) + medium (distribution st) + low (distribution st)
              = frequency st
            \<longleftrightarrow> (\<forall>sk \<in> set (all_skills mixed_example).
                   name sk = n \<longrightarrow> recognized (effectiveness sk))))" ..
  note run = s[THEN conjunct1]
  note entry = s[THEN conjunct2, THEN conjunct2, THEN conjunct2, THEN spec, THEN spec, THEN mp]
  from run mixed_example_run have seq: "s = mixed_summary" by simp
  have look: "map_of (skill_statistics s) ''Rapport'' = Some mixed_rapport_statistic"
    unfolding seq by (rule mixed_example_rapport)
  note e = entry[OF look]
  note rest = e[THEN conjunct2, THEN conjunct2, THEN conjunct2, THEN conjunct2, THEN conjunct2,
      THEN conjunct1]
  note le = e[THEN conjunct2, THEN conjunct2, THEN conjunct2, THEN conjunct2, THEN conjunct2,
      THEN conjunct2, THEN conjunct1]
  note iff = e[THEN conjunct2, THEN conjunct2, THEN conjunct2, THEN conjunct2, THEN conjunct2,
      THEN conjunct2, THEN conjunct2]
  have f: "frequency mixed_rapport_statistic = 2"
    by (simp add: mixed_rapport_statistic_def)
  have sum: "high (distribution mixed_rapport_statistic)
       + medium (distribution mixed_rapport_statistic)
       + low (distribution mixed_rapport_statistic) = 1"
    by (simp add: mixed_rapport_statistic_def)
  have "high (distribution mixed_rapport_statistic)
       + medium (distribution mixed_rapport_statistic)
       + low (distribution mixed_rapport_statistic) \<noteq> frequency mixed_rapport_statistic"
    unfolding f sum by simp
  with iff have "\<not> (\<forall>sk \<in> set (all_skills mixed_example).
                   name sk = ''Rapport'' \<longrightarrow> recognized (effectiveness sk))"
    by blast
  then have unrec: "\<not> list_all (\<lambda>sk. recognized (effectiveness sk))
         (filter (\<lambda>sk. name sk = ''Rapport'') (all_skills mixed_example))"
    by (auto simp: list_all_iff)
  show ?thesis
    by (intro conjI mixed_example_run mixed_example_rapport f sum rest le unrec)
qed

text \<open>C8 at scenario B and its reversal.\<close>

theorem get_skill_summary_order_insensitive_witness:
  "mset (rev scenario_B) = mset scenario_B
   \<and> (\<exists>s'. get_skill_summary (rev scenario_B) = Inr s'
         \<and> total_calls_analyzed s' = 2 \<and> unique_skills_found s' = 2
         \<and> map_of (skill_statistics s') = map_of (skill_statistics scenario_B_summary))"
proof -
  have hyp: "mset (rev scenario_B) = mset scenario_B" by simp
  from get_skill_summary_order_insensitive[OF hyp] obtain s s' where
    run: "get_skill_summary scenario_B = Inr s"
    and run': "get_skill_summary (rev scenario_B) = Inr s'"
    and same: "total_calls_analyzed s' = total_calls_analyzed s"
      "unique_skills_found s' = unique_skills_found s"
      "map_of (skill_statistics s') = map_of (skill_statistics s)"
    by blast
  from run scenario_B_run have s: "s = scenario_B_summary" by simp
  have "total_calls_analyzed scenario_B_summary = 2" "unique_skills_found scenario_B_summary = 2"
    by (simp_all add: scenario_B_summary_def)
  with run' same hyp show ?thesis unfolding s by auto
qed

text \<open>C10 at scenario B, for the entry of \<open>Rapport\<close>.\<close>

theorem frequency_positive_and_avg_in_unit_interval_witness:
  "get_skill_summary scenario_B = Inr scenario_B_summary
   \<and> map_of (skill_statistics scenario_B_summary) ''Rapport'' = Some rapport_statistic
   \<and> 1 \<le> frequency rapport_statistic
   \<and> 0 \<le> avg_effectiveness rapport_statistic \<and> avg_effectiveness rapport_statistic \<le> 1"
proof -
  from frequency_positive_and_avg_in_unit_interval[of scenario_B] obtain s where
    run: "get_skill_summary scenario_B = Inr s"
    and entry: "\<And>n st. map_of (skill_statistics s) n = Some st \<Longrightarrow>
         1 \<le> frequency st \<and> 0 \<le> avg_effectiveness st \<and> avg_effectiveness st \<le> 1"
    by blast
  from run scenario_B_run have s: "s = scenario_B_summary" by simp
  from entry[of "''Rapport''" rapport_statistic] scenario_B_rapport scenario_B_run
  show ?thesis unfolding s by blast
qed

section \<open>Properties of the loader\<close>

lemma find_split_None_iff: "find_split sep s = None \<longleftrightarrow> \<not> sublist sep s"
  by (induction s) (auto simp: sublist_Cons_right)

lemma py_contains_sublist: "py_contains sub s \<longleftrightarrow> sublist sub s"
  by (simp add: py_contains_def find_split_None_iff)

lemma find_split_prefix:
  assumes "sep \<noteq> []" "prefix sep s"
  shows "find_split sep s = Some ([], drop (length sep) s)"
  using assms by (cases s) auto

lemma prefix_of_longer:
  assumes "prefix sep (a @ sep @ b)" "a \<noteq> []" "sep \<noteq> []"
  shows "sublist sep (a @ butlast sep)"
proof -
  have eq: "a @ sep @ b = (a @ butlast sep) @ ([last sep] @ b)"
    using assms(3) by simp
  have "prefix (a @ butlast sep) (a @ sep @ b)" unfolding eq by (rule prefixI) simp
  moreover have "length sep \<le> length (a @ butlast sep)"
    using assms(2,3) by (cases a) auto
  ultimately have "prefix sep (a @ butlast sep)"
    using assms(1) prefix_length_prefix by blast
  then show ?thesis by (rule prefix_imp_sublist)
qed

lemma find_split_first:
  assumes "sep \<noteq> []" "\<not> sublist sep (a @ butlast sep)"
  shows "find_split sep (a @ sep @ b) = Some (a, b)"
  using assms(2)
proof (induction a)
  case Nil
  show ?case using find_split_prefix[OF assms(1), of "sep @ b"] by simp
next
  case (Cons x a)
  have np: "\<not> prefix sep ((x # a) @ sep @ b)"
    using prefix_of_longer[of sep "x # a" b] assms(1) Cons.prems by blast
  have "\<not> sublist sep (a @ butlast sep)"
    using Cons.prems by (simp add: sublist_Cons_right)
  from Cons.IH[OF this] np show ?case by simp
qed

lemma split_all_none: "\<not> sublist sep s \<Longrightarrow> split_all sep s = [s]"
  using find_split_None_iff[of sep s] by (subst split_all.simps) simp

lemma split_all_first:
  assumes "sep \<noteq> []" "\<not> sublist sep (a @ butlast sep)"
  shows "split_all sep (a @ sep @ b) = a # split_all sep b"
  using find_split_first[OF assms, of b] assms(1)
  by (subst split_all.simps) simp

lemma py_replace_none: "old \<noteq> [] \<Longrightarrow> \<not> sublist old s \<Longrightarrow> py_replace old new s = s"
  using find_split_None_iff[of old s] by (subst py_replace.simps) simp

lemma py_replace_first:
  assumes "old \<noteq> []" "\<not> sublist old (a @ butlast old)"
  shows "py_replace old new (a @ old @ b) = a @ new @ py_replace old new b"
  using find_split_first[OF assms, of b] assms(1)
  by (subst py_replace.simps) simp

lemma no_straddle_gen:
  assumes "sep \<noteq> []" "last sep \<notin> set z" "\<not> sublist sep a"
  shows "\<not> sublist sep (a @ z)"
proof
  assume "sublist sep (a @ z)"
  then consider "sublist sep a" | "sublist sep z"
    | xs1 xs2 where "sep = xs1 @ xs2" "suffix xs1 a" "prefix xs2 z"
    unfolding sublist_append by blast
  then show False
  proof cases
    case 1
    with assms(3) show False by simp
  next
    case 2
    then have "set sep \<subseteq> set z" by (rule set_mono_sublist)
    moreover have "last sep \<in> set sep" using assms(1) by simp
    ultimately show False using assms(2) by auto
  next
    case 3
    show False
    proof (cases "xs2 = []")
      case True
      with 3 have "suffix sep a" by simp
      then have "sublist sep a" by (rule suffix_imp_sublist)
      with assms(3) show False by simp
    next
      case False
      then have "last sep = last xs2" using 3(1) by simp
      moreover have "last xs2 \<in> set xs2" using False by simp
      moreover have "set xs2 \<subseteq> set z" using 3(3) by (rule set_mono_prefix)
      ultimately show False using assms(2) by auto
    qed
  qed
qed

lemma no_straddle:
  assumes "sep \<noteq> []" "last sep \<notin> set (butlast sep)" "\<not> sublist sep a"
  shows "\<not> sublist sep (a @ butlast sep)"
  using assms by (rule no_straddle_gen)

lemma dropWhile_all: "list_all P xs \<Longrightarrow> dropWhile P (xs @ ys) = dropWhile P ys"
  by (induction xs) auto

lemma py_strip_trailing_space:
  assumes "list_all isspace t"
  shows "py_strip (b @ t) = py_strip b"
proof (cases "list_all isspace b")
  case True
  then have "\<forall>x \<in> set (b @ t). isspace x" "\<forall>x \<in> set b. isspace x"
    using assms by (auto simp: list_all_iff)
  then have "dropWhile isspace (b @ t) = []" "dropWhile isspace b = []"
    by (simp_all only: dropWhile_eq_Nil_conv)
  then show ?thesis by (simp only: py_strip_def)
next
  case False
  then obtain x where "x \<in> set b" "\<not> isspace x" by (auto simp: list_all_iff)
  then have 1: "dropWhile isspace (b @ t) = dropWhile isspace b @ t"
    by (rule dropWhile_append1)
  have "list_all isspace (rev t)" using assms by (simp add: list_all_iff)
  then have 2: "dropWhile isspace (rev t @ rev (dropWhile isspace b))
          = dropWhile isspace (rev (dropWhile isspace b))"
    by (rule dropWhile_all)
  show ?thesis unfolding py_strip_def 1 by (simp only: rev_append 2)
qed

lemma py_strip_decomp:
  "\<exists>l t. s = l @ py_strip s @ t \<and> list_all isspace l \<and> list_all isspace t"
proof -
  let ?l = "takeWhile isspace s" and ?m = "dropWhile isspace s"
  let ?t = "rev (takeWhile isspace (rev ?m))"
  have 1: "s = ?l @ ?m" by simp
  have 2: "rev ?m = takeWhile isspace (rev ?m) @ dropWhile isspace (rev ?m)" by simp
  have "?m = rev (dropWhile isspace (rev ?m)) @ ?t"
    by (metis 2 rev_append rev_rev_ident)
  then have "s = ?l @ py_strip s @ ?t" using 1 by (simp add: py_strip_def)
  moreover have "list_all isspace ?l"
    by (simp add: list_all_iff) (meson set_takeWhileD)
  moreover have "list_all isspace ?t"
    by (simp add: list_all_iff) (meson set_takeWhileD)
  ultimately show ?thesis by blast
qed


lemma py_strip_empty_iff: "py_strip s = [] \<longleftrightarrow> list_all isspace s"
proof
  assume e: "py_strip s = []"
  from py_strip_decomp[of s] obtain l t where
    "s = l @ py_strip s @ t" "list_all isspace l" "list_all isspace t" by blast
  then have "s = l @ t" "list_all isspace (l @ t)" using e by simp_all
  then show "list_all isspace s" by simp
next
  assume "list_all isspace s"
  then have "\<forall>x \<in> set s. isspace x" by (simp add: list_all_iff)
  then have "dropWhile isspace s = []" by (simp only: dropWhile_eq_Nil_conv)
  then show "py_strip s = []" by (simp only: py_strip_def rev.simps dropWhile.simps)
qed

lemma py_strip_Nil: "py_strip [] = []"
  by (simp add: py_strip_def)

lemma space_no_end:
  assumes "list_all isspace t"
  shows "\<not> sublist ''---END---'' t"
proof
  assume "sublist ''---END---'' t"
  then have "set ''---END---'' \<subseteq> set t" by (rule set_mono_sublist)
  then have "CHR ''-'' \<in> set t" by simp
  with assms have "isspace CHR ''-''" by (simp add: list_all_iff)
  then show False by (simp add: isspace_def)
qed

lemma section_call_wf:
  assumes id: "\<not> py_contains ''---'' (ident @ ''--'')"
    and body: "\<not> py_contains ''---END---'' (body @ ''---END--'')"
    and trail: "list_all isspace trail"
  shows "section_call (ident @ ''---'' @ body @ ''---END---'' @ trail) =
           Inr [(''call_id'', py_strip ident), (''transcript'', py_strip body)]"
proof -
  define rest where "rest = body @ ''---END---'' @ trail"
  have "\<not> sublist ''---'' (ident @ butlast ''---'')"
    using id by (simp add: py_contains_sublist)
  then have fs: "find_split ''---'' (ident @ ''---'' @ rest) = Some (ident, rest)"
    by (intro find_split_first) simp_all
  have parts: "py_split1 ''---'' (ident @ ''---'' @ rest) = Inr [ident, rest]"
    unfolding py_split1_def fs by simp
  have "\<not> sublist ''---END---'' (body @ butlast ''---END---'')"
    using body by (simp add: py_contains_sublist)
  then have "py_replace ''---END---'' '''' (body @ ''---END---'' @ trail)
               = body @ '''' @ py_replace ''---END---'' '''' trail"
    by (intro py_replace_first) simp_all
  also have "py_replace ''---END---'' '''' trail = trail"
    by (rule py_replace_none) (simp_all add: space_no_end[OF trail])
  finally have repl: "py_replace ''---END---'' '''' rest = body @ trail"
    by (simp add: rest_def)
  have "section_call (ident @ ''---'' @ rest) =
           Inr [(''call_id'', py_strip ident), (''transcript'', py_strip body)]"
    unfolding section_call_def parts
    by (simp add: py_getitem_def repl py_strip_trailing_space[OF trail])
  then show ?thesis by (simp only: rest_def)
qed

lemma load_section_wf:
  assumes "wf_section sec"
  shows "load_section calls (section_inner sec) = Inr (calls @ [expected_call sec])"
proof -
  obtain ident body trail where sec: "sec = (ident, body, trail)" by (cases sec)
  from assms have id: "\<not> py_contains ''---'' (ident @ ''--'')"
    and body: "\<not> py_contains ''---END---'' (body @ ''---END--'')"
    and trail: "list_all isspace trail"
    by (simp_all add: wf_section_def sec)
  have "sublist ''---END---'' ((ident @ ''---'' @ body) @ ''---END---'' @ trail)"
    by (rule sublist_appendI)
  then have has_end: "py_contains ''---END---'' (ident @ ''---'' @ body @ ''---END---'' @ trail)"
    by (simp add: py_contains_sublist)
  show ?thesis
    unfolding load_section_def section_inner_def expected_call_def sec
    using has_end section_call_wf[OF id body trail] by simp
qed


lemma no_straddle_call_id:
  assumes "\<not> py_contains ''---CALL_ID:'' a"
  shows "\<not> sublist ''---CALL_ID:'' (a @ butlast ''---CALL_ID:'')"
  by (rule no_straddle) (use assms in \<open>simp_all add: py_contains_sublist\<close>)

lemma split_sections:
  assumes "\<not> py_contains ''---CALL_ID:'' noise"
    and "list_all (\<lambda>b. \<not> py_contains ''---CALL_ID:'' b) bodies"
  shows "split_all ''---CALL_ID:'' (noise @ concat (map ((@) ''---CALL_ID:'') bodies))
           = noise # bodies"
  using assms
proof (induction bodies arbitrary: noise)
  case Nil
  then show ?case by (simp add: split_all_none py_contains_sublist)
next
  case (Cons b bodies)
  have "split_all ''---CALL_ID:''
          (noise @ ''---CALL_ID:'' @ (b @ concat (map ((@) ''---CALL_ID:'') bodies)))
        = noise # split_all ''---CALL_ID:'' (b @ concat (map ((@) ''---CALL_ID:'') bodies))"
    by (rule split_all_first) (simp, rule no_straddle_call_id[OF Cons.prems(1)])
  also have "split_all ''---CALL_ID:'' (b @ concat (map ((@) ''---CALL_ID:'') bodies))
               = b # bodies"
    by (rule Cons.IH) (use Cons.prems(2) in simp_all)
  finally show ?case by simp
qed

lemma for_each_append:
  "for_each body (xs @ ys) s =
     (case for_each body xs s of Inl e \<Rightarrow> Inl e | Inr s' \<Rightarrow> for_each body ys s')"
  by (induction xs arbitrary: s) (auto split: sum.splits)

lemma load_wf_sections:
  assumes "list_all wf_section secs"
  shows "for_each load_section (map section_inner secs) calls = Inr (calls @ map expected_call secs)"
  using assms
proof (induction secs arbitrary: calls)
  case Nil
  then show ?case by simp
next
  case (Cons sec secs)
  then have wf: "wf_section sec" and rest: "list_all wf_section secs" by simp_all
  show ?case using load_section_wf[OF wf, of calls] Cons.IH[OF rest, of "calls @ [expected_call sec]"]
    by simp
qed

lemma wf_section_no_call_id:
  "wf_section sec \<Longrightarrow> \<not> py_contains ''---CALL_ID:'' (section_inner sec)"
  by (cases sec) (simp add: wf_section_def section_inner_def)

lemma load_file_bodies:
  assumes "\<not> py_contains ''---CALL_ID:'' noise"
    and "list_all (\<lambda>b. \<not> py_contains ''---CALL_ID:'' b) bodies"
  shows "load_transcriptions_from_file (noise @ concat (map ((@) ''---CALL_ID:'') bodies))
           = for_each load_section bodies []"
  unfolding load_transcriptions_from_file_def py_split_def
  by (simp add: split_sections[OF assms])

lemma py_replace_Nil: "old \<noteq> [] \<Longrightarrow> py_replace old new [] = []"
  by (subst py_replace.simps) simp






lemma sections_concat:
  "concat (map section_text secs) = concat (map ((@) ''---CALL_ID:'') (map section_inner secs))"
  by (induction secs) (simp_all add: section_text_def)

lemma wf_sections_no_call_id:
  "list_all wf_section secs \<Longrightarrow>
     list_all (\<lambda>b. \<not> py_contains ''---CALL_ID:'' b) (map section_inner secs)"
  by (induction secs) (simp_all add: wf_section_no_call_id)

lemma scenario_A_value:
  "load_transcriptions_from_file
     (''---CALL_ID:C1---'' @ [CHR 0x0A] @ ''Hello world'' @ [CHR 0x0A] @ ''---END---'')
   = Inr [[(''call_id'', ''C1''), (''transcript'', ''Hello world'')]]"
  by (simp add: load_transcriptions_from_file_def py_split_def py_split1_def load_section_def
      section_call_def py_contains_def py_getitem_def py_strip_def isspace_def
      split_all.simps py_replace.simps)

text \<open>
  Claim C2, amended. A file that consists of text without the opening marker followed by
  \<open>n \<ge> 0\<close> well-formed sections, each followed by white space only, yields exactly
  \<open>n\<close> calls in the order of the file; the call of a section holds its identifier and its
  body, each stripped of leading and trailing white space. In particular the file of
  scenario A yields the single call with identifier \<open>C1\<close> and transcript
  \<open>Hello world\<close>.
\<close>

theorem load_well_formed_sections:
  assumes "\<not> py_contains ''---CALL_ID:'' noise" and "list_all wf_section secs"
  shows "load_transcriptions_from_file (noise @ concat (map section_text secs))
           = Inr (map expected_call secs)
       \<and> load_transcriptions_from_file
           (''---CALL_ID:C1---'' @ [CHR 0x0A] @ ''Hello world'' @ [CHR 0x0A] @ ''---END---'')
           = Inr [[(''call_id'', ''C1''), (''transcript'', ''Hello world'')]]"
proof
  have "load_transcriptions_from_file (noise @ concat (map section_text secs))
          = for_each load_section (map section_inner secs) []"
    unfolding sections_concat
    by (rule load_file_bodies[OF assms(1) wf_sections_no_call_id[OF assms(2)]])
  also have "\<dots> = Inr ([] @ map expected_call secs)"
    by (rule load_wf_sections[OF assms(2)])
  finally show "load_transcriptions_from_file (noise @ concat (map section_text secs))
           = Inr (map expected_call secs)" by simp
next
  show "load_transcriptions_from_file
           (''---CALL_ID:C1---'' @ [CHR 0x0A] @ ''Hello world'' @ [CHR 0x0A] @ ''---END---'')
           = Inr [[(''call_id'', ''C1''), (''transcript'', ''Hello world'')]]"
    by (rule scenario_A_value)
qed

text \<open>
  Claim C2, as stated, fails: text after \<open>---END---\<close> is not ignored, it is appended to
  the transcript of the section before it.
\<close>

theorem trailing_noise_counterexample:
  "load_transcriptions_from_file (''---CALL_ID:C1---Hello world---END---'' @ ''noise'')
     = Inr [[(''call_id'', ''C1''), (''transcript'', ''Hello worldnoise'')]]
   \<and> load_transcriptions_from_file (''---CALL_ID:C1---Hello world---END---'' @ ''noise'')
     \<noteq> Inr [[(''call_id'', ''C1''), (''transcript'', ''Hello world'')]]"
  by (simp add: load_transcriptions_from_file_def py_split_def py_split1_def load_section_def
      section_call_def py_contains_def py_getitem_def py_strip_def isspace_def
      split_all.simps py_replace.simps)




lemma sublist_trans_prefix:
  assumes "sublist (p @ q) s"
  shows "sublist p s"
proof -
  from assms obtain ps ss where "s = ps @ (p @ q) @ ss" unfolding sublist_def by blast
  then have "s = ps @ p @ (q @ ss)" by simp
  then show ?thesis unfolding sublist_def by blast
qed

lemma identifier_no_call_id:
  assumes "\<not> py_contains ''---'' (ident @ ''--'')"
  shows "\<not> py_contains ''---CALL_ID:'' (ident @ ''------END---'')"
proof -
  have no3: "\<not> sublist ''---'' ident"
  proof
    assume "sublist ''---'' ident"
    then have "sublist ''---'' (ident @ ''--'')" by (simp add: sublist_append)
    with assms show False by (simp add: py_contains_sublist)
  qed
  have "\<not> sublist ''---CALL_ID:'' ident"
  proof
    assume "sublist ''---CALL_ID:'' ident"
    then have "sublist (''---'' @ ''CALL_ID:'') ident" by simp
    then have "sublist ''---'' ident" by (rule sublist_trans_prefix)
    with no3 show False by simp
  qed
  then have "\<not> sublist ''---CALL_ID:'' (ident @ ''------END---'')"
    by (intro no_straddle_gen) simp_all
  then show ?thesis by (simp add: py_contains_sublist)
qed

text \<open>
  Claim C7, as stated, fails for an identifier that ends with \<open>-\<close>: the first
  \<open>---\<close> of the section then begins inside the identifier.
\<close>

theorem missing_separator_counterexample:
  "load_transcriptions_from_file (''---CALL_ID:'' @ ''A-'' @ ''------END---'')
     = Inr [[(''call_id'', ''A''), (''transcript'', ''-'')]]
   \<and> load_transcriptions_from_file (''---CALL_ID:'' @ ''A-'' @ ''------END---'')
     \<noteq> Inr [[(''call_id'', ''A-''), (''transcript'', '''')]]"
  by (simp add: load_transcriptions_from_file_def py_split_def py_split1_def load_section_def
      section_call_def py_contains_def py_getitem_def py_strip_def isspace_def
      split_all.simps py_replace.simps)

text \<open>
  Claim C7, amended. For every identifier that, followed by \<open>--\<close>, contains no
  \<open>---\<close> (it contains no \<open>---\<close> and does not end with \<open>-\<close>), the file
  \<open>---CALL_ID:<id>------END---\<close> yields exactly one call, with the identifier stripped of
  leading and trailing white space and the empty transcript.
\<close>

theorem missing_separator_gives_empty_transcript:
  assumes "\<not> py_contains ''---'' (ident @ ''--'')"
  shows "load_transcriptions_from_file (''---CALL_ID:'' @ ident @ ''------END---'')
           = Inr [[(''call_id'', py_strip ident), (''transcript'', '''')]]"
proof -
  have none: "\<not> py_contains ''---CALL_ID:'' []"
    by (simp add: py_contains_def)
  have body: "list_all (\<lambda>b. \<not> py_contains ''---CALL_ID:'' b) [ident @ ''------END---'']"
    using identifier_no_call_id[OF assms] by simp
  have noend: "\<not> py_contains ''---END---'' ([] @ ''---END--'')"
    by (simp add: py_contains_def)
  have has_end: "py_contains ''---END---'' (ident @ ''------END---'')"
  proof -
    have "sublist ''---END---'' ((ident @ ''---'') @ ''---END---'' @ [])"
      by (rule sublist_appendI)
    then show ?thesis by (simp add: py_contains_sublist)
  qed
  have call: "section_call (ident @ ''------END---'')
                = Inr [(''call_id'', py_strip ident), (''transcript'', '''')]"
    using section_call_wf[OF assms noend, of "[]"] by (simp add: py_strip_Nil)
  have "load_transcriptions_from_file
          ([] @ concat (map ((@) ''---CALL_ID:'') [ident @ ''------END---'']))
        = for_each load_section [ident @ ''------END---''] []"
    by (rule load_file_bodies[OF none body])
  also have "\<dots> = Inr [[(''call_id'', py_strip ident), (''transcript'', '''')]]"
    using has_end call by (simp add: load_section_def)
  finally show ?thesis by simp
qed

text \<open>
  Claim C9 says that every call the loader produces has a non-empty \<open>call_id\<close>. The
  loader does not check it: for the file \<open>---CALL_ID:------END---\<close>, whose section has an
  empty identifier, it returns one call whose \<open>call_id\<close> is the empty string. The
  request handler \<^verbatim>\<open>analyze_call\<close> of \<^verbatim>\<open>app.py\<close> rejects an empty
  \<open>call_id\<close>; the path from the loader to \<^verbatim>\<open>analyze_call\<close> in
  \<^verbatim>\<open>analyze_calls.py\<close> makes no such check.
\<close>

theorem empty_call_id_failing_input:
  "load_transcriptions_from_file ''---CALL_ID:------END---''
     = Inr [[(''call_id'', ''''), (''transcript'', '''')]]
   \<and> map_of [(''call_id'', ''''), (''transcript'', '''')] ''call_id'' = Some ''''"
  by (simp add: load_transcriptions_from_file_def py_split_def py_split1_def load_section_def
      section_call_def py_contains_def py_getitem_def py_strip_def isspace_def
      split_all.simps py_replace.simps)

text \<open>
  The amended C2 on a file of two sections after some noise, the second identifier padded
  with blanks and the second body containing \<open>---\<close>.
\<close>

theorem load_well_formed_sections_witness:
  "\<not> py_contains ''---CALL_ID:'' ''junk ''
   \<and> list_all wf_section [(''C1'', ''Hello world'', '' ''), ('' C2 '', ''a---b'', '''')]
   \<and> load_transcriptions_from_file
        ''junk ---CALL_ID:C1---Hello world---END--- ---CALL_ID: C2 ---a---b---END---''
       = Inr [[(''call_id'', ''C1''), (''transcript'', ''Hello world'')],
              [(''call_id'', ''C2''), (''transcript'', ''a---b'')]]"
proof -
  have h1: "\<not> py_contains ''---CALL_ID:'' ''junk ''"
    by (simp add: py_contains_def)
  have h2: "list_all wf_section [(''C1'', ''Hello world'', '' ''), ('' C2 '', ''a---b'', '''')]"
    by (simp add: wf_section_def py_contains_def isspace_def)
  from load_well_formed_sections[OF h1 h2, THEN conjunct1]
  have "load_transcriptions_from_file
        ''junk ---CALL_ID:C1---Hello world---END--- ---CALL_ID: C2 ---a---b---END---''
       = Inr [[(''call_id'', ''C1''), (''transcript'', ''Hello world'')],
              [(''call_id'', ''C2''), (''transcript'', ''a---b'')]]"
    by (simp add: section_text_def section_inner_def expected_call_def py_strip_def isspace_def)
  with h1 h2 show ?thesis by blast
qed



text \<open>The amended C7 for the identifier \<open>42\<close> padded with blanks.\<close>

theorem missing_separator_gives_empty_transcript_witness:
  "\<not> py_contains ''---'' ('' 42 '' @ ''--'')
   \<and> load_transcriptions_from_file ''---CALL_ID: 42 ------END---''
       = Inr [[(''call_id'', ''42''), (''transcript'', '''')]]"
proof -
  have h: "\<not> py_contains ''---'' ('' 42 '' @ ''--'')"
    by (simp add: py_contains_def)
  from missing_separator_gives_empty_transcript[OF h]
  have "load_transcriptions_from_file ''---CALL_ID: 42 ------END---''
       = Inr [[(''call_id'', ''42''), (''transcript'', '''')]]"
    by (simp add: py_strip_def isspace_def)
  with h show ?thesis by blast
qed

end
